theory Spec2Isabelle
  imports Main
begin

section \<open>The task store and the timeline of the Gantt editor\<close>

text \<open>
  A shallow embedding of \<^verbatim>\<open>src/js/store.js\<close> (class \<^verbatim>\<open>Store\<close>) and of
  \<^verbatim>\<open>Gantt.chooseTickInterval\<close> in \<^verbatim>\<open>src/js/gantt.js\<close>.

  Conventions of the model.
  \<^item> JavaScript strings are \<open>string\<close>s holding their UTF-8 bytes; only equality of strings
    is ever used, and the encoding is injective. Cyrillic literals of the source are
    written byte by byte.
  \<^item> Numbers that the store handles (ids, progress, the history cursor) are integers,
    modelled as \<open>int\<close>; \<^verbatim>\<open>NaN\<close>, infinities and fractions are outside the model. Where
    the store computes a number (\<^verbatim>\<open>this.nextId++\<close>, \<^verbatim>\<open>Math.max(...) + 1\<close>, \<^verbatim>\<open>parseInt\<close>)
    the result is rounded as a double rounds it (\<open>to_double\<close>): above \<open>2\<^sup>5\<^sup>3\<close> not every
    integer is a number of JavaScript.
  \<^item> A partial object (the argument of \<^verbatim>\<open>add\<close>, the patch of \<^verbatim>\<open>update\<close>) is a record
    of optional fields: \<open>None\<close> is an absent property.
  \<^item> HOL values are immutable and have no identity, so the deep copy
    \<^verbatim>\<open>JSON.parse(JSON.stringify(x))\<close> is the identity on strings, integers, booleans and
    arrays of them. It is not the identity on the colour of a task, which can be a
    function or an object found on \<^verbatim>\<open>Object.prototype\<close> (\<open>deep_copy\<close>).
  \<^item> A JavaScript \<^verbatim>\<open>Set\<close> is a list without repetition, in insertion order
    (the order \<^verbatim>\<open>Array.from\<close> produces).
  \<^item> A subscriber callback is an observer: it receives \<open>(action, payload)\<close> and either
    returns or throws. What it does elsewhere is outside the model; in particular a
    callback that calls back into the store is not modelled. Every invocation is
    recorded in the field \<open>calls\<close> of the store.
  \<^item> Readings of the clock (\<^verbatim>\<open>Date.now()\<close>, \<^verbatim>\<open>new Date()\<close>) are parameters of the
    operation that reads them.
  \<^item> A thrown exception is the \<open>Inl\<close> branch of the result; the store that the
    operation leaves behind is returned in both branches.
\<close>

subsection \<open>Tasks\<close>

text \<open>An entry of \<^verbatim>\<open>task.dependencies\<close>: the application stores both numbers and
  strings such as \<^verbatim>\<open>'1'\<close> there (\<^verbatim>\<open>src/js/app.js\<close>, \<^verbatim>\<open>addDemoData\<close>).\<close>

datatype depref = DepNum int | DepStr string

text \<open>The values that the property \<^verbatim>\<open>color\<close> of a task can hold. \<^verbatim>\<open>add\<close> and \<^verbatim>\<open>update\<close>
  read \<^verbatim>\<open>this.types[type]\<close> on a plain object, and a property read follows the prototype
  chain: for a type named \<^verbatim>\<open>'constructor'\<close> or \<^verbatim>\<open>'toString'\<close> the value is a function of
  \<^verbatim>\<open>Object.prototype\<close> (\<open>Fn\<close>, with the name of the property), and for \<^verbatim>\<open>'__proto__'\<close> it is
  \<^verbatim>\<open>Object.prototype\<close> itself. \<open>EmptyObject\<close> is \<^verbatim>\<open>{}\<close>, what the JSON copy makes of
  \<^verbatim>\<open>Object.prototype\<close>; \<open>Absent\<close> is a task without the property, what the JSON copy makes
  of a task whose colour is a function.\<close>

datatype colour = Str string | Fn string | ObjectPrototype | EmptyObject | Absent

text \<open>The object built by \<^verbatim>\<open>Store.add\<close>. The fields are those of the source; they carry
  the prefix \<open>t_\<close> because \<open>id\<close> and \<open>end\<close> are taken in Isabelle.\<close>

record task =
  t_id :: int
  t_type :: string
  t_task :: string
  t_start :: string
  t_end :: string
  t_progress :: int
  t_priority :: string
  t_milestone :: bool
  t_owner :: string
  t_dependencies :: "depref list"
  t_color :: colour

text \<open>A partial task object: the argument of \<^verbatim>\<open>add(task)\<close> and of
  \<^verbatim>\<open>update(id, fields)\<close>.\<close>

record fields =
  f_id :: "int option"
  f_type :: "string option"
  f_task :: "string option"
  f_start :: "string option"
  f_end :: "string option"
  f_progress :: "int option"
  f_priority :: "string option"
  f_milestone :: "bool option"
  f_owner :: "string option"
  f_dependencies :: "depref list option"
  f_color :: "string option"

text \<open>\<^verbatim>\<open>x || d\<close> on an optional string, number and boolean: the empty string, \<open>0\<close>,
  \<^verbatim>\<open>false\<close> and \<^verbatim>\<open>undefined\<close> are falsy. An array is always truthy.\<close>

definition or_str :: "string option \<Rightarrow> string \<Rightarrow> string" where
  "or_str x d = (case x of None \<Rightarrow> d | Some v \<Rightarrow> if v = [] then d else v)"

definition or_int :: "int option \<Rightarrow> int \<Rightarrow> int" where
  "or_int x d = (case x of None \<Rightarrow> d | Some v \<Rightarrow> if v = 0 then d else v)"

definition or_bool :: "bool option \<Rightarrow> bool \<Rightarrow> bool" where
  "or_bool x d = (case x of None \<Rightarrow> d | Some v \<Rightarrow> if v then v else d)"

definition or_array :: "'a list option \<Rightarrow> 'a list \<Rightarrow> 'a list" where
  "or_array x d = (case x of None \<Rightarrow> d | Some v \<Rightarrow> v)"

definition truthy_str :: "string option \<Rightarrow> bool" where
  "truthy_str x = (case x of None \<Rightarrow> False | Some v \<Rightarrow> v \<noteq> [])"

text \<open>The same on colours: a function and an object are truthy, a string is truthy when it
  is not empty, \<^verbatim>\<open>undefined\<close> is falsy. \<open>colour_of\<close> reads the optional string property
  \<^verbatim>\<open>color\<close> of a partial task as a colour.\<close>

fun truthy_colour :: "colour \<Rightarrow> bool" where
  "truthy_colour (Str v) = (v \<noteq> [])"
| "truthy_colour (Fn name) = True"
| "truthy_colour ObjectPrototype = True"
| "truthy_colour EmptyObject = True"
| "truthy_colour Absent = False"

definition or_colour :: "colour \<Rightarrow> colour \<Rightarrow> colour" where
  "or_colour x d = (if truthy_colour x then x else d)"

definition colour_of :: "string option \<Rightarrow> colour" where
  "colour_of x = (case x of None \<Rightarrow> Absent | Some v \<Rightarrow> Str v)"

subsection \<open>The JSON copy\<close>

text \<open>\<^verbatim>\<open>JSON.parse(JSON.stringify(data))\<close> on a list of tasks. \<^verbatim>\<open>JSON.stringify\<close> leaves out a
  property whose value is a function, and writes \<^verbatim>\<open>Object.prototype\<close>, which has no
  enumerable property of its own, as \<^verbatim>\<open>{}\<close>. The other fields of a task are strings,
  integers, a boolean and an array of strings and integers, which the copy reproduces.\<close>

fun json_colour :: "colour \<Rightarrow> colour" where
  "json_colour (Str v) = Str v"
| "json_colour (Fn name) = Absent"
| "json_colour ObjectPrototype = EmptyObject"
| "json_colour EmptyObject = EmptyObject"
| "json_colour Absent = Absent"

definition json_task :: "task \<Rightarrow> task" where
  "json_task t = t\<lparr>t_color := json_colour (t_color t)\<rparr>"

definition deep_copy :: "task list \<Rightarrow> task list" where
  "deep_copy ds = map json_task ds"

subsection \<open>Integers as doubles\<close>

text \<open>The number of binary digits of a positive integer, and the rounding of an integer
  to the nearest double, ties to the even significand: a double has 53 significant bits,
  so an integer of more bits loses the low ones. Every integer of absolute value up to
  \<open>2\<^sup>5\<^sup>3\<close> is a double. (Overflow to \<^verbatim>\<open>Infinity\<close>, beyond \<open>2\<^sup>1\<^sup>0\<^sup>2\<^sup>4\<close>, is outside the
  model.)\<close>

function bits :: "int \<Rightarrow> nat" where
  "bits n = (if n \<le> 0 then 0 else Suc (bits (n div 2)))"
  by pat_completeness auto
termination
  by (relation "measure nat") auto

declare bits.simps [simp del]

definition to_double :: "int \<Rightarrow> int" where
  "to_double n =
     (let a = \<bar>n\<bar>;
          e = bits a - 53
      in if e = 0 then n
         else (let q = a div 2 ^ e;
                   r = a mod 2 ^ e;
                   h = 2 ^ (e - 1);
                   q' = (if h < r \<or> (r = h \<and> odd q) then q + 1 else q)
               in sgn n * (q' * 2 ^ e)))"

subsection \<open>\<^verbatim>\<open>parseInt\<close>\<close>

text \<open>\<^verbatim>\<open>parseInt(x)\<close> with no radix, as \<^verbatim>\<open>calculateCriticalPath\<close> and the table view call
  it. On a string: leading white space is skipped, then an optional sign, then an
  optional \<^verbatim>\<open>0x\<close>/\<^verbatim>\<open>0X\<close> that selects radix 16, then the longest run of digits, whose
  value is rounded to a double; no digit gives \<^verbatim>\<open>NaN\<close>, which is \<open>None\<close>. On an integer
  it is the integer itself (for the integers that print without an exponent, those below
  \<open>10\<^sup>2\<^sup>1\<close> in absolute value).

  The white space of the language, as UTF-8 bytes: TAB, LF, VT, FF, CR, SP, U+00A0,
  U+1680, U+2000 to U+200A, U+2028, U+2029, U+202F, U+205F, U+3000 and U+FEFF.
  \<open>space_width\<close> is the number of bytes of the white space character a string starts
  with, 0 when it starts with none.\<close>

definition white_space :: "string list" where
  "white_space =
     [[CHR 0x09], [CHR 0x0A], [CHR 0x0B], [CHR 0x0C], [CHR 0x0D], [CHR 0x20],
      [CHR 0xC2, CHR 0xA0],
      [CHR 0xE1, CHR 0x9A, CHR 0x80],
      [CHR 0xE2, CHR 0x80, CHR 0x80], [CHR 0xE2, CHR 0x80, CHR 0x81],
      [CHR 0xE2, CHR 0x80, CHR 0x82], [CHR 0xE2, CHR 0x80, CHR 0x83],
      [CHR 0xE2, CHR 0x80, CHR 0x84], [CHR 0xE2, CHR 0x80, CHR 0x85],
      [CHR 0xE2, CHR 0x80, CHR 0x86], [CHR 0xE2, CHR 0x80, CHR 0x87],
      [CHR 0xE2, CHR 0x80, CHR 0x88], [CHR 0xE2, CHR 0x80, CHR 0x89],
      [CHR 0xE2, CHR 0x80, CHR 0x8A],
      [CHR 0xE2, CHR 0x80, CHR 0xA8], [CHR 0xE2, CHR 0x80, CHR 0xA9],
      [CHR 0xE2, CHR 0x80, CHR 0xAF],
      [CHR 0xE2, CHR 0x81, CHR 0x9F],
      [CHR 0xE3, CHR 0x80, CHR 0x80],
      [CHR 0xEF, CHR 0xBB, CHR 0xBF]]"

definition space_width :: "string \<Rightarrow> nat" where
  "space_width s =
     (case find (\<lambda>w. take (length w) s = w) white_space of
        None \<Rightarrow> 0
      | Some w \<Rightarrow> length w)"

function skip_space :: "string \<Rightarrow> string" where
  "skip_space s = (if space_width s = 0 then s else skip_space (drop (space_width s) s))"
  by pat_completeness auto
termination
proof (relation "measure length")
  show "wf (measure length)" by simp
next
  fix s :: string
  assume w: "space_width s \<noteq> 0"
  have "s \<noteq> []"
  proof
    assume "s = []"
    then have "space_width s = 0" by (simp add: space_width_def white_space_def)
    with w show False by simp
  qed
  with w show "(drop (space_width s) s, s) \<in> measure length" by simp
qed

declare skip_space.simps [simp del]

definition digit_of :: "nat \<Rightarrow> char \<Rightarrow> nat option" where
  "digit_of radix c =
     (let n = of_char c :: nat;
          v = (if 48 \<le> n \<and> n \<le> 57 then Some (n - 48)
               else if 97 \<le> n \<and> n \<le> 122 then Some (n - 87)
               else if 65 \<le> n \<and> n \<le> 90 then Some (n - 55)
               else None)
      in case v of None \<Rightarrow> None | Some d \<Rightarrow> if d < radix then Some d else None)"

definition digits_value :: "nat \<Rightarrow> char list \<Rightarrow> int" where
  "digits_value radix cs =
     foldl (\<lambda>acc c. acc * int radix + int (the (digit_of radix c))) 0 cs"

definition parseInt_str :: "string \<Rightarrow> int option" where
  "parseInt_str s =
     (let s1 = skip_space s;
          neg = (case s1 of c # _ \<Rightarrow> c = CHR ''-'' | [] \<Rightarrow> False);
          s2 = (case s1 of c # r \<Rightarrow> if c = CHR ''-'' \<or> c = CHR ''+'' then r else s1 | [] \<Rightarrow> s1);
          hex = (case s2 of a # b # _ \<Rightarrow> a = CHR ''0'' \<and> (b = CHR ''x'' \<or> b = CHR ''X'')
                          | _ \<Rightarrow> False);
          radix = (if hex then 16 else 10);
          s3 = (if hex then drop 2 s2 else s2);
          ds = takeWhile (\<lambda>c. digit_of radix c \<noteq> None) s3
      in if ds = [] then None
         else Some (to_double ((if neg then -1 else 1) * digits_value radix ds)))"

fun parseInt :: "depref \<Rightarrow> int option" where
  "parseInt (DepNum n) = Some n"
| "parseInt (DepStr s) = parseInt_str s"

subsection \<open>The tick interval of the timeline\<close>

text \<open>\<^verbatim>\<open>Gantt.chooseTickInterval(spanMinutes)\<close>, \<^verbatim>\<open>src/js/gantt.js\<close>. Its only caller
  passes \<^verbatim>\<open>hoursPerScreen * 60\<close> with \<^verbatim>\<open>hoursPerScreen\<close> the result of \<^verbatim>\<open>parseInt\<close>,
  an integer.\<close>

definition chooseTickInterval :: "int \<Rightarrow> int" where
  "chooseTickInterval spanMinutes =
     (if spanMinutes \<le> 480 then 30
      else if spanMinutes \<le> 1440 then 60
      else if spanMinutes \<le> 2880 then 120
      else if spanMinutes \<le> 10080 then 720
      else 1440)"

subsection \<open>String constants of the source\<close>

text \<open>The Cyrillic literals of \<^verbatim>\<open>store.js\<close>, as UTF-8 bytes; the comment gives the
  transliteration.\<close>

text \<open>\<open>DESCR_ADD\<close> (Dobavlenie raboty): the description that add passes to saveState.\<close>

definition DESCR_ADD :: string where
  "DESCR_ADD =
    [CHR 0xD0, CHR 0x94, CHR 0xD0, CHR 0xBE, CHR 0xD0, CHR 0xB1, CHR 0xD0, CHR 0xB0,
     CHR 0xD0, CHR 0xB2, CHR 0xD0, CHR 0xBB, CHR 0xD0, CHR 0xB5, CHR 0xD0, CHR 0xBD,
     CHR 0xD0, CHR 0xB8, CHR 0xD0, CHR 0xB5, CHR 0x20, CHR 0xD1, CHR 0x80, CHR 0xD0,
     CHR 0xB0, CHR 0xD0, CHR 0xB1, CHR 0xD0, CHR 0xBE, CHR 0xD1, CHR 0x82, CHR 0xD1,
     CHR 0x8B]"

text \<open>\<open>DESCR_UPDATE\<close> (Obnovlenie raboty): the description that update passes to saveState.\<close>

definition DESCR_UPDATE :: string where
  "DESCR_UPDATE =
    [CHR 0xD0, CHR 0x9E, CHR 0xD0, CHR 0xB1, CHR 0xD0, CHR 0xBD, CHR 0xD0, CHR 0xBE,
     CHR 0xD0, CHR 0xB2, CHR 0xD0, CHR 0xBB, CHR 0xD0, CHR 0xB5, CHR 0xD0, CHR 0xBD,
     CHR 0xD0, CHR 0xB8, CHR 0xD0, CHR 0xB5, CHR 0x20, CHR 0xD1, CHR 0x80, CHR 0xD0,
     CHR 0xB0, CHR 0xD0, CHR 0xB1, CHR 0xD0, CHR 0xBE, CHR 0xD1, CHR 0x82, CHR 0xD1,
     CHR 0x8B]"

text \<open>\<open>DESCR_DELETE\<close> (Udalenie raboty): the description that delete passes to saveState.\<close>

definition DESCR_DELETE :: string where
  "DESCR_DELETE =
    [CHR 0xD0, CHR 0xA3, CHR 0xD0, CHR 0xB4, CHR 0xD0, CHR 0xB0, CHR 0xD0, CHR 0xBB,
     CHR 0xD0, CHR 0xB5, CHR 0xD0, CHR 0xBD, CHR 0xD0, CHR 0xB8, CHR 0xD0, CHR 0xB5,
     CHR 0x20, CHR 0xD1, CHR 0x80, CHR 0xD0, CHR 0xB0, CHR 0xD0, CHR 0xB1, CHR 0xD0,
     CHR 0xBE, CHR 0xD1, CHR 0x82, CHR 0xD1, CHR 0x8B]"

text \<open>\<open>DESCR_IMPORT\<close> (Import dannykh): the description that importData passes to saveState.\<close>

definition DESCR_IMPORT :: string where
  "DESCR_IMPORT =
    [CHR 0xD0, CHR 0x98, CHR 0xD0, CHR 0xBC, CHR 0xD0, CHR 0xBF, CHR 0xD0, CHR 0xBE,
     CHR 0xD1, CHR 0x80, CHR 0xD1, CHR 0x82, CHR 0x20, CHR 0xD0, CHR 0xB4, CHR 0xD0,
     CHR 0xB0, CHR 0xD0, CHR 0xBD, CHR 0xD0, CHR 0xBD, CHR 0xD1, CHR 0x8B, CHR 0xD1,
     CHR 0x85]"

text \<open>\<open>DEFAULT_TITLE\<close> (Novaya rabota): the title that add gives a task without one.\<close>

definition DEFAULT_TITLE :: string where
  "DEFAULT_TITLE =
    [CHR 0xD0, CHR 0x9D, CHR 0xD0, CHR 0xBE, CHR 0xD0, CHR 0xB2, CHR 0xD0, CHR 0xB0,
     CHR 0xD1, CHR 0x8F, CHR 0x20, CHR 0xD1, CHR 0x80, CHR 0xD0, CHR 0xB0, CHR 0xD0,
     CHR 0xB1, CHR 0xD0, CHR 0xBE, CHR 0xD1, CHR 0x82, CHR 0xD0, CHR 0xB0]"

text \<open>\<open>DEFAULT_PROJECT\<close> (Moi proekt): the project name of a store with none saved.\<close>

definition DEFAULT_PROJECT :: string where
  "DEFAULT_PROJECT =
    [CHR 0xD0, CHR 0x9C, CHR 0xD0, CHR 0xBE, CHR 0xD0, CHR 0xB9, CHR 0x20, CHR 0xD0,
     CHR 0xBF, CHR 0xD1, CHR 0x80, CHR 0xD0, CHR 0xBE, CHR 0xD0, CHR 0xB5, CHR 0xD0,
     CHR 0xBA, CHR 0xD1, CHR 0x82]"

text \<open>\<^verbatim>\<open>DEFAULT_TYPES\<close>: the nine work types and their colours, in the order of the
  source: Transport, Razgruzka, Pogruzka, Montazh, Demontazh, Pusko-naladka, Uborka,
  Repetitsiya, Vekha.\<close>

definition DEFAULT_TYPES_list :: "(string \<times> string) list" where
  "DEFAULT_TYPES_list =
    [([CHR 0xD0, CHR 0xA2, CHR 0xD1, CHR 0x80, CHR 0xD0, CHR 0xB0, CHR 0xD0, CHR 0xBD,
       CHR 0xD1, CHR 0x81, CHR 0xD0, CHR 0xBF, CHR 0xD0, CHR 0xBE, CHR 0xD1, CHR 0x80,
       CHR 0xD1, CHR 0x82],
      ''#5da7ff''),
     ([CHR 0xD0, CHR 0xA0, CHR 0xD0, CHR 0xB0, CHR 0xD0, CHR 0xB7, CHR 0xD0, CHR 0xB3,
       CHR 0xD1, CHR 0x80, CHR 0xD1, CHR 0x83, CHR 0xD0, CHR 0xB7, CHR 0xD0, CHR 0xBA,
       CHR 0xD0, CHR 0xB0],
      ''#90be6d''),
     ([CHR 0xD0, CHR 0x9F, CHR 0xD0, CHR 0xBE, CHR 0xD0, CHR 0xB3, CHR 0xD1, CHR 0x80,
       CHR 0xD1, CHR 0x83, CHR 0xD0, CHR 0xB7, CHR 0xD0, CHR 0xBA, CHR 0xD0, CHR 0xB0],
      ''#80ffea''),
     ([CHR 0xD0, CHR 0x9C, CHR 0xD0, CHR 0xBE, CHR 0xD0, CHR 0xBD, CHR 0xD1, CHR 0x82,
       CHR 0xD0, CHR 0xB0, CHR 0xD0, CHR 0xB6],
      ''#ffd166''),
     ([CHR 0xD0, CHR 0x94, CHR 0xD0, CHR 0xB5, CHR 0xD0, CHR 0xBC, CHR 0xD0, CHR 0xBE,
       CHR 0xD0, CHR 0xBD, CHR 0xD1, CHR 0x82, CHR 0xD0, CHR 0xB0, CHR 0xD0, CHR 0xB6],
      ''#ff6b6b''),
     ([CHR 0xD0, CHR 0x9F, CHR 0xD1, CHR 0x83, CHR 0xD1, CHR 0x81, CHR 0xD0, CHR 0xBA,
       CHR 0xD0, CHR 0xBE, CHR 0x2D, CHR 0xD0, CHR 0xBD, CHR 0xD0, CHR 0xB0, CHR 0xD0,
       CHR 0xBB, CHR 0xD0, CHR 0xB0, CHR 0xD0, CHR 0xB4, CHR 0xD0, CHR 0xBA, CHR 0xD0,
       CHR 0xB0],
      ''#f9c74f''),
     ([CHR 0xD0, CHR 0xA3, CHR 0xD0, CHR 0xB1, CHR 0xD0, CHR 0xBE, CHR 0xD1, CHR 0x80,
       CHR 0xD0, CHR 0xBA, CHR 0xD0, CHR 0xB0],
      ''#bdb2ff''),
     ([CHR 0xD0, CHR 0xA0, CHR 0xD0, CHR 0xB5, CHR 0xD0, CHR 0xBF, CHR 0xD0, CHR 0xB5,
       CHR 0xD1, CHR 0x82, CHR 0xD0, CHR 0xB8, CHR 0xD1, CHR 0x86, CHR 0xD0, CHR 0xB8,
       CHR 0xD1, CHR 0x8F],
      ''#a0c4ff''),
     ([CHR 0xD0, CHR 0x92, CHR 0xD0, CHR 0xB5, CHR 0xD1, CHR 0x85, CHR 0xD0, CHR 0xB0],
      ''#d56cff'')]"

definition DEFAULT_TYPES :: "string \<rightharpoonup> string" where
  "DEFAULT_TYPES = map_of DEFAULT_TYPES_list"

subsection \<open>JavaScript containers\<close>

text \<open>\<^verbatim>\<open>Set.add\<close>, \<^verbatim>\<open>Set.delete\<close> and \<^verbatim>\<open>new Set(array)\<close> on a set kept as the list of
  its elements in insertion order.\<close>

definition set_add :: "int \<Rightarrow> int list \<Rightarrow> int list" where
  "set_add x xs = (if x \<in> set xs then xs else xs @ [x])"

definition set_delete :: "int \<Rightarrow> int list \<Rightarrow> int list" where
  "set_delete x xs = filter (\<lambda>y. y \<noteq> x) xs"

definition set_from_array :: "int list \<Rightarrow> int list" where
  "set_from_array xs = foldl (\<lambda>acc x. set_add x acc) [] xs"

text \<open>\<^verbatim>\<open>Array.prototype.findIndex\<close>, with \<open>None\<close> for \<^verbatim>\<open>-1\<close>.\<close>

fun findIndex :: "('a \<Rightarrow> bool) \<Rightarrow> 'a list \<Rightarrow> nat option" where
  "findIndex P [] = None"
| "findIndex P (x # xs) = (if P x then Some 0 else map_option Suc (findIndex P xs))"

text \<open>\<^verbatim>\<open>xs[i]\<close>: \<open>None\<close> is \<^verbatim>\<open>undefined\<close>, the value of an index outside the array.\<close>

definition nth_opt :: "'a list \<Rightarrow> int \<Rightarrow> 'a option" where
  "nth_opt xs i = (if 0 \<le> i \<and> i < int (length xs) then Some (xs ! nat i) else None)"

text \<open>\<^verbatim>\<open>xs.slice(0, e)\<close>: a negative end counts from the end of the array.\<close>

definition slice0 :: "'a list \<Rightarrow> int \<Rightarrow> 'a list" where
  "slice0 xs e = (if e < 0 then take (nat (int (length xs) + e)) xs else take (nat e) xs)"

text \<open>\<^verbatim>\<open>obj[k]\<close> with a key that may be \<^verbatim>\<open>undefined\<close>: the key is converted to the
  string \<^verbatim>\<open>"undefined"\<close>.\<close>

definition prop_key :: "string option \<Rightarrow> string" where
  "prop_key k = (case k of None \<Rightarrow> ''undefined'' | Some v \<Rightarrow> v)"

text \<open>\<^verbatim>\<open>this.types[k]\<close>. The registry is a plain object (an object literal, the result of
  \<^verbatim>\<open>JSON.parse\<close> or of a spread), so a key that is not a property of its own is looked up
  on \<^verbatim>\<open>Object.prototype\<close>: its methods (the list below is that of the language
  standard, Annex B included) and the accessor \<^verbatim>\<open>__proto__\<close>, which returns
  \<^verbatim>\<open>Object.prototype\<close>. The registry's own properties are strings.\<close>

definition object_prototype_methods :: "string list" where
  "object_prototype_methods =
     [''constructor'', ''hasOwnProperty'', ''isPrototypeOf'', ''propertyIsEnumerable'',
      ''toLocaleString'', ''toString'', ''valueOf'', ''__defineGetter__'',
      ''__defineSetter__'', ''__lookupGetter__'', ''__lookupSetter__'']"

definition types_get :: "(string \<rightharpoonup> string) \<Rightarrow> string \<Rightarrow> colour" where
  "types_get m k =
     (case m k of
        Some v \<Rightarrow> Str v
      | None \<Rightarrow>
          if k \<in> set object_prototype_methods then Fn k
          else if k = ''__proto__'' then ObjectPrototype
          else Absent)"

subsection \<open>The state of the store\<close>

datatype payload = NoData | TaskData task

datatype cb_result = Returns | Throws

type_synonym subscriber = "string \<Rightarrow> payload \<Rightarrow> cb_result"

text \<open>The exceptions of the model: reading \<^verbatim>\<open>.state\<close> of \<^verbatim>\<open>undefined\<close>, and a
  subscriber callback (given by its position in \<^verbatim>\<open>this.subscribers\<close>) that throws.\<close>

datatype exn = TypeError | SubscriberError nat

text \<open>The object \<^verbatim>\<open>state\<close> that \<^verbatim>\<open>saveState\<close> builds, and the history entry
  \<^verbatim>\<open>{ state, description, timestamp }\<close>.\<close>

record saved_state =
  sv_data :: "task list"
  sv_nextId :: int
  sv_criticalTasks :: "int list"

record entry =
  state :: saved_state
  description :: string
  timestamp :: nat

text \<open>The fields of \<^verbatim>\<open>Store\<close> that the operations below read or write
  (\<^verbatim>\<open>currentUser\<close>, which only \<^verbatim>\<open>login\<close> and \<^verbatim>\<open>logout\<close> touch, is left out). \<open>calls\<close> is the
  trace of the callback invocations (position of the subscriber, action, payload);
  \<open>stored_types\<close> is the registry saved under the key \<^verbatim>\<open>gantt_types\<close> of
  \<^verbatim>\<open>localStorage\<close>. The field \<^verbatim>\<open>maxHistory\<close> is assigned 50 in the constructor and
  never written again: it is the constant \<open>maxHistory\<close>.\<close>

record store =
  data :: "task list"
  nextId :: int
  types :: "string \<rightharpoonup> string"
  history :: "entry list"
  historyIndex :: int
  criticalTasks :: "int list"
  projectName :: string
  subscribers :: "subscriber list"
  calls :: "(nat \<times> string \<times> payload) list"
  stored_types :: "(string \<rightharpoonup> string) option"

definition maxHistory :: nat where
  "maxHistory = 50"

text \<open>The constructor. Its arguments are what \<^verbatim>\<open>localStorage\<close> holds: the saved type
  registry (\<open>None\<close> when there is none or it does not parse) and the saved project name.\<close>

definition new_store :: "(string \<rightharpoonup> string) option \<Rightarrow> string option \<Rightarrow> store" where
  "new_store saved_types saved_name =
     \<lparr> data = [],
       nextId = 1,
       types = (case saved_types of None \<Rightarrow> DEFAULT_TYPES | Some m \<Rightarrow> m),
       history = [],
       historyIndex = -1,
       criticalTasks = [],
       projectName = or_str saved_name DEFAULT_PROJECT,
       subscribers = [],
       calls = [],
       stored_types = saved_types \<rparr>"

text \<open>The live state that a snapshot copies: task list, next id, critical set.\<close>

definition live :: "store \<Rightarrow> saved_state" where
  "live s = \<lparr> sv_data = data s, sv_nextId = nextId s, sv_criticalTasks = criticalTasks s \<rparr>"

text \<open>The object \<^verbatim>\<open>state\<close> that \<^verbatim>\<open>saveState\<close> builds from the live state: the JSON copy
  of the task list, the counter, and \<^verbatim>\<open>Array.from(this.criticalTasks)\<close>.\<close>

definition snapshot :: "store \<Rightarrow> saved_state" where
  "snapshot s =
     \<lparr> sv_data = deep_copy (data s), sv_nextId = nextId s,
       sv_criticalTasks = criticalTasks s \<rparr>"

subsection \<open>Subscriptions\<close>

text \<open>\<^verbatim>\<open>subscribe(callback)\<close> appends the callback. (The function it returns, which
  removes the callback again, is not modelled.)\<close>

definition subscribe :: "subscriber \<Rightarrow> store \<Rightarrow> store" where
  "subscribe callback s = s\<lparr>subscribers := subscribers s @ [callback]\<rparr>"

text \<open>\<^verbatim>\<open>this.subscribers.forEach(cb => cb(action, data))\<close>: the callbacks run in order;
  an exception thrown by one of them leaves the loop. \<open>dispatch\<close> returns the invocations
  made, and the exception if there is one; \<open>k\<close> is the position of the first callback of
  the list.\<close>

fun dispatch ::
  "subscriber list \<Rightarrow> nat \<Rightarrow> string \<Rightarrow> payload \<Rightarrow> (nat \<times> string \<times> payload) list \<times> exn option"
where
  "dispatch [] k action d = ([], None)"
| "dispatch (cb # cbs) k action d =
     (case cb action d of
        Throws \<Rightarrow> ([(k, action, d)], Some (SubscriberError k))
      | Returns \<Rightarrow> (let (l, r) = dispatch cbs (Suc k) action d in ((k, action, d) # l, r)))"

definition notify :: "string \<Rightarrow> payload \<Rightarrow> store \<Rightarrow> (exn + unit) \<times> store" where
  "notify action d s =
     (let (l, r) = dispatch (subscribers s) 0 action d
      in (case r of None \<Rightarrow> Inr () | Some e \<Rightarrow> Inl e, s\<lparr>calls := calls s @ l\<rparr>))"

subsection \<open>History\<close>

text \<open>\<^verbatim>\<open>saveState(description)\<close>: the snapshot of the live state; the entries after the
  cursor are cut off when the cursor is not on the last entry; the new entry is pushed;
  then either the oldest entry is shifted out (more than \<open>maxHistory\<close> entries) or the
  cursor is incremented; at the end \<^verbatim>\<open>notify('history-change')\<close>. The time is the
  \<^verbatim>\<open>Date.now()\<close> of the entry.\<close>

definition saveState :: "string \<Rightarrow> nat \<Rightarrow> store \<Rightarrow> (exn + unit) \<times> store" where
  "saveState descr now s =
     (let st = snapshot s;
          h1 = (if historyIndex s < int (length (history s)) - 1
                then slice0 (history s) (historyIndex s + 1)
                else history s);
          h2 = h1 @ [\<lparr> state = st, description = descr, timestamp = now \<rparr>];
          s1 = (if length h2 > maxHistory
                then s\<lparr>history := tl h2\<rparr>
                else s\<lparr>history := h2, historyIndex := historyIndex s + 1\<rparr>)
      in notify ''history-change'' NoData s1)"

text \<open>\<^verbatim>\<open>restoreState(state)\<close>: the task list is a JSON copy of the saved one, the critical
  set is \<^verbatim>\<open>new Set(state.criticalTasks)\<close>.\<close>

definition restoreState :: "saved_state \<Rightarrow> store \<Rightarrow> store" where
  "restoreState st s =
     s\<lparr> data := deep_copy (sv_data st),
        nextId := sv_nextId st,
        criticalTasks := set_from_array (sv_criticalTasks st) \<rparr>"

text \<open>\<^verbatim>\<open>undo()\<close> and \<^verbatim>\<open>redo()\<close>: the cursor moves first, then
  \<^verbatim>\<open>this.history[this.historyIndex].state\<close> is read, which throws a \<^verbatim>\<open>TypeError\<close> when the
  cursor is not the index of an entry.\<close>

definition undo :: "store \<Rightarrow> (exn + bool) \<times> store" where
  "undo s =
     (if historyIndex s > 0 then
        (let s1 = s\<lparr>historyIndex := historyIndex s - 1\<rparr>
         in case nth_opt (history s1) (historyIndex s1) of
              None \<Rightarrow> (Inl TypeError, s1)
            | Some e \<Rightarrow>
                (let (r, s2) = notify ''undo'' NoData (restoreState (state e) s1)
                 in case r of Inl x \<Rightarrow> (Inl x, s2) | Inr _ \<Rightarrow> (Inr True, s2)))
      else (Inr False, s))"

definition redo :: "store \<Rightarrow> (exn + bool) \<times> store" where
  "redo s =
     (if historyIndex s < int (length (history s)) - 1 then
        (let s1 = s\<lparr>historyIndex := historyIndex s + 1\<rparr>
         in case nth_opt (history s1) (historyIndex s1) of
              None \<Rightarrow> (Inl TypeError, s1)
            | Some e \<Rightarrow>
                (let (r, s2) = notify ''redo'' NoData (restoreState (state e) s1)
                 in case r of Inl x \<Rightarrow> (Inl x, s2) | Inr _ \<Rightarrow> (Inr True, s2)))
      else (Inr False, s))"


definition canRedo :: "store \<Rightarrow> bool" where
  "canRedo s = (historyIndex s < int (length (history s)) - 1)"

subsection \<open>Tasks: add, update, delete\<close>

text \<open>The readings of the clock that \<^verbatim>\<open>add\<close> makes: the two default dates
  (\<^verbatim>\<open>toISOString().slice(0, 16)\<close> of now and of one hour later) and the \<^verbatim>\<open>Date.now()\<close>
  of \<^verbatim>\<open>saveState\<close>.\<close>

record clock =
  now_iso :: string
  hour_later_iso :: string
  now_ms :: nat

text \<open>The object literal \<^verbatim>\<open>newTask\<close> of \<^verbatim>\<open>add(task)\<close>.\<close>

definition newTask :: "clock \<Rightarrow> fields \<Rightarrow> store \<Rightarrow> task" where
  "newTask c task s =
     \<lparr> t_id = nextId s,
       t_type = or_str (f_type task) '''',
       t_task = or_str (f_task task) DEFAULT_TITLE,
       t_start = or_str (f_start task) (now_iso c),
       t_end = or_str (f_end task) (hour_later_iso c),
       t_progress = or_int (f_progress task) 0,
       t_priority = or_str (f_priority task) ''medium'',
       t_milestone = or_bool (f_milestone task) False,
       t_owner = or_str (f_owner task) '''',
       t_dependencies = or_array (f_dependencies task) [],
       t_color = or_colour (colour_of (f_color task))
                   (or_colour (types_get (types s) (prop_key (f_type task)))
                      (Str ''#5da7ff'')) \<rparr>"

text \<open>\<^verbatim>\<open>add(task)\<close>: \<^verbatim>\<open>this.nextId++\<close> inside the literal (the new task has the old value;
  the sum is a double), \<^verbatim>\<open>this.data.push\<close>, \<^verbatim>\<open>saveState\<close>, \<^verbatim>\<open>notify('add', newTask)\<close>,
  \<^verbatim>\<open>return newTask\<close>.\<close>

definition add :: "clock \<Rightarrow> fields \<Rightarrow> store \<Rightarrow> (exn + task) \<times> store" where
  "add c task s =
     (let nt = newTask c task s;
          s1 = s\<lparr>nextId := to_double (nextId s + 1), data := data s @ [nt]\<rparr>;
          (r1, s2) = saveState DESCR_ADD (now_ms c) s1
      in case r1 of
           Inl e \<Rightarrow> (Inl e, s2)
         | Inr _ \<Rightarrow>
             (let (r2, s3) = notify ''add'' (TaskData nt) s2
              in case r2 of Inl e \<Rightarrow> (Inl e, s3) | Inr _ \<Rightarrow> (Inr nt, s3)))"

text \<open>A property of a patch that overwrites the one of the object when it is present.\<close>

definition assigned :: "'a option \<Rightarrow> 'a \<Rightarrow> 'a" where
  "assigned x old = (case x of None \<Rightarrow> old | Some v \<Rightarrow> v)"

text \<open>\<^verbatim>\<open>Object.assign(task, fields)\<close>: every property present in the patch overwrites
  the one of the task, the id included.\<close>

definition assign :: "task \<Rightarrow> fields \<Rightarrow> task" where
  "assign t f =
     \<lparr> t_id = assigned (f_id f) (t_id t),
       t_type = assigned (f_type f) (t_type t),
       t_task = assigned (f_task f) (t_task t),
       t_start = assigned (f_start f) (t_start t),
       t_end = assigned (f_end f) (t_end t),
       t_progress = assigned (f_progress f) (t_progress t),
       t_priority = assigned (f_priority f) (t_priority t),
       t_milestone = assigned (f_milestone f) (t_milestone t),
       t_owner = assigned (f_owner f) (t_owner t),
       t_dependencies = assigned (f_dependencies f) (t_dependencies t),
       t_color = (case f_color f of None \<Rightarrow> t_color t | Some v \<Rightarrow> Str v) \<rparr>"

text \<open>The body of \<^verbatim>\<open>update\<close> on the task found: the assignment, then
  \<^verbatim>\<open>if (fields.type && !fields.color) task.color = this.types[fields.type] || task.color\<close>.\<close>

definition patched :: "store \<Rightarrow> task \<Rightarrow> fields \<Rightarrow> task" where
  "patched s t f =
     (let t1 = assign t f
      in if truthy_str (f_type f) \<and> \<not> truthy_str (f_color f)
         then t1\<lparr>t_color := or_colour (types_get (types s) (prop_key (f_type f))) (t_color t1)\<rparr>
         else t1)"

text \<open>\<^verbatim>\<open>update(id, fields)\<close>. \<^verbatim>\<open>getById\<close> returns the first task with the id, and the
  assignment changes that object in place: the list is updated at the position
  \<^verbatim>\<open>findIndex\<close> gives. The time is the \<^verbatim>\<open>Date.now()\<close> of \<^verbatim>\<open>saveState\<close>.\<close>

definition update :: "nat \<Rightarrow> int \<Rightarrow> fields \<Rightarrow> store \<Rightarrow> (exn + task option) \<times> store" where
  "update now i f s =
     (case findIndex (\<lambda>t. t_id t = i) (data s) of
        None \<Rightarrow> (Inr None, s)
      | Some k \<Rightarrow>
          (let t2 = patched s (data s ! k) f;
               s1 = s\<lparr>data := (data s)[k := t2]\<rparr>;
               (r1, s2) = saveState DESCR_UPDATE now s1
           in case r1 of
                Inl e \<Rightarrow> (Inl e, s2)
              | Inr _ \<Rightarrow>
                  (let (r2, s3) = notify ''update'' (TaskData t2) s2
                   in case r2 of Inl e \<Rightarrow> (Inl e, s3) | Inr _ \<Rightarrow> (Inr (Some t2), s3))))"

text \<open>\<^verbatim>\<open>delete(id)\<close>: \<^verbatim>\<open>splice(index, 1)\<close> removes the task at the position found.\<close>

definition delete :: "nat \<Rightarrow> int \<Rightarrow> store \<Rightarrow> (exn + task option) \<times> store" where
  "delete now i s =
     (case findIndex (\<lambda>t. t_id t = i) (data s) of
        None \<Rightarrow> (Inr None, s)
      | Some k \<Rightarrow>
          (let deleted = data s ! k;
               s1 = s\<lparr> data := take k (data s) @ drop (Suc k) (data s),
                       criticalTasks := set_delete i (criticalTasks s) \<rparr>;
               (r1, s2) = saveState DESCR_DELETE now s1
           in case r1 of
                Inl e \<Rightarrow> (Inl e, s2)
              | Inr _ \<Rightarrow>
                  (let (r2, s3) = notify ''delete'' (TaskData deleted) s2
                   in case r2 of Inl e \<Rightarrow> (Inl e, s3) | Inr _ \<Rightarrow> (Inr (Some deleted), s3))))"

subsection \<open>The critical set\<close>

text \<open>The set that the two loops of \<^verbatim>\<open>calculateCriticalPath\<close> build from \<^verbatim>\<open>this.data\<close>
  after \<^verbatim>\<open>this.criticalTasks.clear()\<close>: first the ids of the tasks of priority
  \<^verbatim>\<open>'high'\<close>, then, for every entry of every non-empty \<^verbatim>\<open>dependencies\<close> list, the id of
  the task that \<^verbatim>\<open>getById(parseInt(depId))\<close> finds.\<close>

definition critical_ids :: "task list \<Rightarrow> int list" where
  "critical_ids ds =
     (let c1 = foldl (\<lambda>c t. if t_priority t = ''high'' then set_add (t_id t) c else c) [] ds
      in foldl
           (\<lambda>c t. if t_dependencies t \<noteq> []
                   then foldl
                          (\<lambda>c depId.
                             case parseInt depId of
                               None \<Rightarrow> c
                             | Some n \<Rightarrow>
                                 (case find (\<lambda>u. t_id u = n) ds of
                                    None \<Rightarrow> c
                                  | Some depTask \<Rightarrow> set_add (t_id depTask) c))
                          c (t_dependencies t)
                   else c)
           c1 ds)"

text \<open>\<^verbatim>\<open>calculateCriticalPath()\<close>: the set replaces \<^verbatim>\<open>this.criticalTasks\<close> and is returned
  as an array. There is no call of \<^verbatim>\<open>saveState\<close> or \<^verbatim>\<open>notify\<close>.\<close>

definition calculateCriticalPath :: "store \<Rightarrow> int list \<times> store" where
  "calculateCriticalPath s =
     (let c = critical_ids (data s) in (c, s\<lparr>criticalTasks := c\<rparr>))"

subsection \<open>Import\<close>

text \<open>The value that \<^verbatim>\<open>importData\<close> works on after \<^verbatim>\<open>JSON.parse\<close>: an object with the
  optional properties \<^verbatim>\<open>projectName\<close>, \<^verbatim>\<open>types\<close> and \<^verbatim>\<open>data\<close> (an array of tasks), a bare
  array of tasks (the old format), \<^verbatim>\<open>null\<close> or \<^verbatim>\<open>undefined\<close>, or another primitive
  value. The tasks of an imported array are well-formed tasks with integer ids.
  The argument is either a text, given with the result of \<^verbatim>\<open>JSON.parse\<close> on it
  (\<open>None\<close> when it throws), or a value.\<close>

datatype imported =
    ImpObject "string option" "(string \<rightharpoonup> string) option" "task list option"
  | ImpArray "task list"
  | ImpNull
  | ImpPrimitive

datatype import_arg = JsonText "imported option" | JsonValue imported

text \<open>\<^verbatim>\<open>typeof json === 'string' ? JSON.parse(json) : json\<close>; \<open>None\<close> when the parser
  throws.\<close>

definition import_value :: "import_arg \<Rightarrow> imported option" where
  "import_value json = (case json of JsonText p \<Rightarrow> p | JsonValue v \<Rightarrow> Some v)"

text \<open>\<^verbatim>\<open>Math.max(...this.data.map(t => t.id), 0) + 1\<close>, the sum rounded to a double.\<close>

definition next_after :: "task list \<Rightarrow> int" where
  "next_after ts = to_double (foldl max 0 (map t_id ts) + 1)"

text \<open>The three conditional statements of \<^verbatim>\<open>importData\<close> that copy the project name,
  the type registry (merged over \<^verbatim>\<open>DEFAULT_TYPES\<close> and saved to \<^verbatim>\<open>localStorage\<close>) and
  the task list out of the imported value.\<close>

definition load_imported :: "imported \<Rightarrow> store \<Rightarrow> store" where
  "load_imported v s =
     (let s1 = (case v of
                  ImpObject (Some n) _ _ \<Rightarrow> if n \<noteq> [] then s\<lparr>projectName := n\<rparr> else s
                | _ \<Rightarrow> s);
          s2 = (case v of
                  ImpObject _ (Some m) _ \<Rightarrow>
                    s1\<lparr>types := DEFAULT_TYPES ++ m, stored_types := Some (DEFAULT_TYPES ++ m)\<rparr>
                | _ \<Rightarrow> s1)
      in case v of
           ImpObject _ _ (Some ts) \<Rightarrow> s2\<lparr>data := ts, nextId := next_after ts\<rparr>
         | ImpArray ts \<Rightarrow> s2\<lparr>data := ts, nextId := next_after ts\<rparr>
         | _ \<Rightarrow> s2)"

text \<open>\<^verbatim>\<open>importData(json)\<close>. Everything is inside \<^verbatim>\<open>try\<close>: an exception, from the
  parser, from a property of \<^verbatim>\<open>null\<close> or from a subscriber, ends in \<^verbatim>\<open>return false\<close>
  with the store as the statements before it left it.\<close>

definition importData :: "nat \<Rightarrow> import_arg \<Rightarrow> store \<Rightarrow> bool \<times> store" where
  "importData now json s =
     (case import_value json of
        None \<Rightarrow> (False, s)
      | Some ImpNull \<Rightarrow> (False, s)
      | Some v \<Rightarrow>
          (let s3 = load_imported v s;
               s4 = s3\<lparr>history := [], historyIndex := -1\<rparr>;
               (r1, s5) = saveState DESCR_IMPORT now s4
           in case r1 of
                Inl e \<Rightarrow> (False, s5)
              | Inr _ \<Rightarrow>
                  (let (r2, s6) = notify ''import'' NoData s5
                   in case r2 of Inl e \<Rightarrow> (False, s6) | Inr _ \<Rightarrow> (True, s6))))"

subsection \<open>Sequences of operations\<close>

text \<open>A call of the store's interface, and a session as a list of calls. \<open>step\<close> gives the
  store after the call, whether it returned or threw.\<close>

datatype op =
    Subscribe subscriber
  | Add clock fields
  | Update nat int fields
  | Delete nat int
  | Undo
  | Redo
  | CalculateCriticalPath
  | ImportData nat import_arg

fun step :: "op \<Rightarrow> store \<Rightarrow> store" where
  "step (Subscribe cb) s = subscribe cb s"
| "step (Add c task) s = snd (add c task s)"
| "step (Update now i f) s = snd (update now i f s)"
| "step (Delete now i) s = snd (delete now i s)"
| "step Undo s = snd (undo s)"
| "step Redo s = snd (redo s)"
| "step CalculateCriticalPath s = snd (calculateCriticalPath s)"
| "step (ImportData now json) s = snd (importData now json s)"

fun exec :: "op list \<Rightarrow> store \<Rightarrow> store" where
  "exec [] s = s"
| "exec (x # xs) s = exec xs (step x s)"

text \<open>The ids of the tasks that the calls of \<^verbatim>\<open>add\<close> in a session return, in order.\<close>

fun added_ids :: "op list \<Rightarrow> store \<Rightarrow> int list" where
  "added_ids [] s = []"
| "added_ids (Add c task # xs) s =
     (case fst (add c task s) of
        Inr t \<Rightarrow> t_id t # added_ids xs (step (Add c task) s)
      | Inl _ \<Rightarrow> added_ids xs (step (Add c task) s))"
| "added_ids (x # xs) s = added_ids xs (step x s)"

text \<open>The calls that edit the task list.\<close>

fun is_edit :: "op \<Rightarrow> bool" where
  "is_edit (Add c task) = True"
| "is_edit (Update now i f) = True"
| "is_edit (Delete now i) = True"
| "is_edit _ = False"

text \<open>The calls that put back an earlier value of \<^verbatim>\<open>nextId\<close>: \<^verbatim>\<open>undo\<close> restores the
  counter of the snapshot, \<^verbatim>\<open>importData\<close> recomputes it from the imported tasks.\<close>

fun rewinds :: "op \<Rightarrow> bool" where
  "rewinds Undo = True"
| "rewinds (ImportData now json) = True"
| "rewinds _ = False"

subsection \<open>Well-formed histories\<close>

text \<open>The cursor is \<open>-1\<close> or the index of an entry, and the history is within its bound.
  This holds in a new store and every operation keeps it (\<open>hist_inv_new_store\<close>,
  \<open>hist_inv_step\<close> below).\<close>

definition hist_inv :: "store \<Rightarrow> bool" where
  "hist_inv s =
     (-1 \<le> historyIndex s \<and> historyIndex s < int (length (history s))
      \<and> length (history s) \<le> maxHistory)"

text \<open>The entry under the cursor holds the snapshot of the live state.\<close>

definition current :: "store \<Rightarrow> bool" where
  "current s =
     (case nth_opt (history s) (historyIndex s) of
        None \<Rightarrow> False
      | Some e \<Rightarrow> state e = snapshot s)"

text \<open>The entry under the cursor holds the live state itself: what claim C1 asks for.\<close>

definition current_is_live :: "store \<Rightarrow> bool" where
  "current_is_live s =
     (case nth_opt (history s) (historyIndex s) of
        None \<Rightarrow> False
      | Some e \<Rightarrow> state e = live s)"

text \<open>The cursor is at the last entry (or the history is empty and the cursor is \<open>-1\<close>).\<close>

definition at_end :: "store \<Rightarrow> bool" where
  "at_end s = (historyIndex s = int (length (history s)) - 1)"

text \<open>What a session of edits keeps: a well-formed history, a cursor (when there is an
  entry) on the snapshot of the live state, and a critical set without repetition.\<close>

definition store_inv :: "store \<Rightarrow> bool" where
  "store_inv s =
     (hist_inv s \<and> (historyIndex s < 0 \<or> current s) \<and> distinct (criticalTasks s))"

subsection \<open>Example stores\<close>

text \<open>Concrete inputs on which the theorems below are instantiated: a reading of the
  clock, the empty object \<^verbatim>\<open>{}\<close>, the object \<^verbatim>\<open>{type: 'constructor'}\<close>, a subscriber that
  returns and one that throws, the
  task that \<^verbatim>\<open>add({})\<close> creates in a new store, a store whose history holds
  \<open>maxHistory\<close> entries with the cursor on the last one, and the store after three calls
  of \<^verbatim>\<open>add({})\<close> with one subscriber.\<close>

definition clock0 :: clock where
  "clock0 = \<lparr> now_iso = ''2026-02-25T09:00'', hour_later_iso = ''2026-02-25T10:00'', now_ms = 0 \<rparr>"

definition no_fields :: fields where
  "no_fields = \<lparr> f_id = None, f_type = None, f_task = None, f_start = None, f_end = None,
       f_progress = None, f_priority = None, f_milestone = None, f_owner = None,
       f_dependencies = None, f_color = None \<rparr>"

definition inherited_type :: fields where
  "inherited_type = no_fields\<lparr>f_type := Some ''constructor''\<rparr>"

definition quiet :: subscriber where
  "quiet action d = Returns"

definition failing :: subscriber where
  "failing action d = Throws"

definition task1 :: task where
  "task1 = newTask clock0 no_fields (new_store None None)"

definition full_store :: store where
  "full_store =
     \<lparr> data = [task1],
       nextId = 2,
       types = DEFAULT_TYPES,
       history = replicate 50
                   \<lparr> state = \<lparr> sv_data = [task1], sv_nextId = 2, sv_criticalTasks = [] \<rparr>,
                     description = DESCR_UPDATE, timestamp = 0 \<rparr>,
       historyIndex = 49,
       criticalTasks = [],
       projectName = DEFAULT_PROJECT,
       subscribers = [quiet],
       calls = [],
       stored_types = None \<rparr>"

definition three_tasks :: store where
  "three_tasks =
     exec [Add clock0 no_fields, Add clock0 no_fields, Add clock0 no_fields]
       (subscribe quiet (new_store None None))"

text \<open>A store with four tasks: task 1 of low priority, task 2 that depends on
  \<^verbatim>\<open>'1'\<close>, task 3 of low priority that nothing refers to, and task 4 of high priority
  whose dependency 9 is the id of no task.\<close>

definition crit_store :: store where
  "crit_store =
     exec [Add clock0 (no_fields\<lparr>f_priority := Some ''low''\<rparr>),
           Add clock0 (no_fields\<lparr>f_dependencies := Some [DepStr ''1'']\<rparr>),
           Add clock0 (no_fields\<lparr>f_priority := Some ''low''\<rparr>),
           Add clock0 (no_fields\<lparr>f_priority := Some ''high'', f_dependencies := Some [DepNum 9]\<rparr>)]
       (new_store None None)"

section \<open>Properties\<close>

subsection \<open>The JSON copy and the rounding: auxiliary facts\<close>

lemma json_colour_idem [simp]: "json_colour (json_colour c) = json_colour c"
  by (cases c) simp_all

lemma json_task_idem [simp]: "json_task (json_task t) = json_task t"
  by (simp add: json_task_def)

lemma deep_copy_idem [simp]: "deep_copy (deep_copy ds) = deep_copy ds"
  by (simp add: deep_copy_def)

lemma deep_copy_strings:
  "\<forall>t\<in>set ds. \<exists>v. t_color t = Str v \<Longrightarrow> deep_copy ds = ds"
  by (induction ds) (auto simp: deep_copy_def json_task_def)

lemma bits_le: "0 \<le> n \<Longrightarrow> n < 2 ^ k \<Longrightarrow> bits n \<le> k"
proof (induction k arbitrary: n)
  case 0
  then show ?case by (simp add: bits.simps)
next
  case (Suc k)
  show ?case
  proof (cases "n \<le> 0")
    case True
    then show ?thesis by (simp add: bits.simps)
  next
    case False
    from Suc.prems have "0 \<le> n div 2" "n div 2 < 2 ^ k" by simp_all
    from Suc.IH [OF this] False show ?thesis by (subst bits.simps) simp
  qed
qed

lemma to_double_exact: "\<bar>n\<bar> < 2 ^ 53 \<Longrightarrow> to_double n = n"
proof -
  assume "\<bar>n\<bar> < 2 ^ 53"
  from bits_le [OF _ this] show ?thesis by (simp add: to_double_def Let_def)
qed

subsection \<open>Notification and history: auxiliary facts\<close>

lemma dispatch_calls:
  "fst (dispatch cbs k a d) =
     map (\<lambda>j. (j, a, d)) [k ..< k + (case findIndex (\<lambda>cb. cb a d = Throws) cbs of None \<Rightarrow> length cbs | Some i \<Rightarrow> Suc i)]"
proof (induction cbs arbitrary: k)
  case Nil
  then show ?case by simp
next
  case (Cons cb cbs)
  show ?case
  proof (cases "cb a d")
    case Returns
    then show ?thesis using Cons.IH [of "Suc k"]
      by (simp add: split_beta upt_conv_Cons del: upt_Suc split: option.splits)
  next
    case Throws
    then show ?thesis by simp
  qed
qed

lemma dispatch_exn:
  "snd (dispatch cbs k a d) =
     map_option (\<lambda>i. SubscriberError (k + i)) (findIndex (\<lambda>cb. cb a d = Throws) cbs)"
proof (induction cbs arbitrary: k)
  case Nil
  then show ?case by simp
next
  case (Cons cb cbs)
  show ?case
  proof (cases "cb a d")
    case Returns
    then show ?thesis using Cons.IH [of "Suc k"]
      by (simp add: split_beta option.map_comp comp_def)
  next
    case Throws
    then show ?thesis by simp
  qed
qed

lemma notify_snd: "snd (notify a d s) = s\<lparr>calls := calls s @ fst (dispatch (subscribers s) 0 a d)\<rparr>"
  by (simp add: notify_def split_beta)

lemma notify_fst:
  "fst (notify a d s) = (case snd (dispatch (subscribers s) 0 a d) of None \<Rightarrow> Inr () | Some e \<Rightarrow> Inl e)"
  by (simp add: notify_def split_beta)

lemma saveState_keeps [simp]:
  "data (snd (saveState descr now s)) = data s"
  "nextId (snd (saveState descr now s)) = nextId s"
  "criticalTasks (snd (saveState descr now s)) = criticalTasks s"
  "subscribers (snd (saveState descr now s)) = subscribers s"
  "types (snd (saveState descr now s)) = types s"
  "projectName (snd (saveState descr now s)) = projectName s"
  "stored_types (snd (saveState descr now s)) = stored_types s"
  by (simp_all add: saveState_def Let_def notify_snd)

lemma snapshot_saveState [simp]: "snapshot (snd (saveState descr now s)) = snapshot s"
  by (simp add: snapshot_def)

lemma saveState_history:
  "history (snd (saveState descr now s)) =
     (let h2 = (if historyIndex s < int (length (history s)) - 1
                then slice0 (history s) (historyIndex s + 1) else history s)
               @ [\<lparr> state = snapshot s, description = descr, timestamp = now \<rparr>]
      in if length h2 > maxHistory then tl h2 else h2)"
  by (simp add: saveState_def Let_def notify_snd snapshot_def)

lemma saveState_historyIndex:
  "historyIndex (snd (saveState descr now s)) =
     (let h2 = (if historyIndex s < int (length (history s)) - 1
                then slice0 (history s) (historyIndex s + 1) else history s)
               @ [\<lparr> state = snapshot s, description = descr, timestamp = now \<rparr>]
      in if length h2 > maxHistory then historyIndex s else historyIndex s + 1)"
  by (simp add: saveState_def Let_def notify_snd snapshot_def)

lemma saveState_fst:
  "fst (saveState descr now s) =
     (case snd (dispatch (subscribers s) 0 ''history-change'' NoData) of
        None \<Rightarrow> Inr () | Some e \<Rightarrow> Inl e)"
  by (simp add: saveState_def Let_def notify_fst)

lemma saveState_calls:
  "calls (snd (saveState descr now s)) =
     calls s @ fst (dispatch (subscribers s) 0 ''history-change'' NoData)"
  by (simp add: saveState_def Let_def notify_snd)

lemma saveState_pruned:
  assumes "hist_inv s"
  shows "history (snd (saveState descr now s)) =
           (if historyIndex s + 1 = int maxHistory
            then tl (history s) @ [\<lparr> state = snapshot s, description = descr, timestamp = now \<rparr>]
            else take (nat (historyIndex s + 1)) (history s)
                 @ [\<lparr> state = snapshot s, description = descr, timestamp = now \<rparr>])"
    and "historyIndex (snd (saveState descr now s)) =
           (if historyIndex s + 1 = int maxHistory then historyIndex s else historyIndex s + 1)"
  using assms
  by (auto simp: saveState_history saveState_historyIndex hist_inv_def slice0_def Let_def
        maxHistory_def tl_append split: list.splits)

lemma saveState_last:
  assumes "hist_inv s"
  shows "history (snd (saveState descr now s)) \<noteq> []"
    and "last (history (snd (saveState descr now s)))
           = \<lparr> state = snapshot s, description = descr, timestamp = now \<rparr>"
    and "at_end (snd (saveState descr now s))"
    and "hist_inv (snd (saveState descr now s))"
  using assms
  by (auto simp: saveState_pruned hist_inv_def at_end_def maxHistory_def)

lemma snapshot_calls [simp]: "snapshot (s\<lparr>calls := l\<rparr>) = snapshot s"
  by (simp add: snapshot_def)

lemma calls_irrelevant [simp]:
  "hist_inv (s\<lparr>calls := l\<rparr>) = hist_inv s"
  "current (s\<lparr>calls := l\<rparr>) = current s"
  "at_end (s\<lparr>calls := l\<rparr>) = at_end s"
  by (simp_all add: hist_inv_def current_def at_end_def cong: option.case_cong)

lemma store_inv_calls [simp]: "store_inv (s\<lparr>calls := l\<rparr>) = store_inv s"
  by (simp add: store_inv_def)

lemma add_store:
  "\<exists>l. snd (add c f s) =
     (snd (saveState DESCR_ADD (now_ms c)
        (s\<lparr>nextId := to_double (nextId s + 1), data := data s @ [newTask c f s]\<rparr>)))\<lparr>calls := l\<rparr>"
proof (cases "fst (saveState DESCR_ADD (now_ms c)
        (s\<lparr>nextId := to_double (nextId s + 1), data := data s @ [newTask c f s]\<rparr>))")
  case (Inl e)
  then show ?thesis
    by (intro exI [of _ "calls (snd (add c f s))"]) (simp add: add_def Let_def split_beta)
next
  case (Inr u)
  then show ?thesis
    by (intro exI [of _ "calls (snd (add c f s))"])
       (simp add: add_def Let_def split_beta notify_snd split: sum.splits)
qed

lemma update_store:
  assumes "findIndex (\<lambda>t. t_id t = i) (data s) = Some k"
  shows "\<exists>l. snd (update now i f s) =
     (snd (saveState DESCR_UPDATE now
        (s\<lparr>data := (data s)[k := patched s (data s ! k) f]\<rparr>)))\<lparr>calls := l\<rparr>"
proof (cases "fst (saveState DESCR_UPDATE now
        (s\<lparr>data := (data s)[k := patched s (data s ! k) f]\<rparr>))")
  case (Inl e)
  then show ?thesis using assms
    by (intro exI [of _ "calls (snd (update now i f s))"]) (simp add: update_def Let_def split_beta)
next
  case (Inr u)
  then show ?thesis using assms
    by (intro exI [of _ "calls (snd (update now i f s))"])
       (simp add: update_def Let_def split_beta notify_snd split: sum.splits)
qed

lemma delete_store:
  assumes "findIndex (\<lambda>t. t_id t = i) (data s) = Some k"
  shows "\<exists>l. snd (delete now i s) =
     (snd (saveState DESCR_DELETE now
        (s\<lparr>data := take k (data s) @ drop (Suc k) (data s),
           criticalTasks := set_delete i (criticalTasks s)\<rparr>)))\<lparr>calls := l\<rparr>"
proof (cases "fst (saveState DESCR_DELETE now
        (s\<lparr>data := take k (data s) @ drop (Suc k) (data s),
           criticalTasks := set_delete i (criticalTasks s)\<rparr>))")
  case (Inl e)
  then show ?thesis using assms
    by (intro exI [of _ "calls (snd (delete now i s))"]) (simp add: delete_def Let_def split_beta)
next
  case (Inr u)
  then show ?thesis using assms
    by (intro exI [of _ "calls (snd (delete now i s))"])
       (simp add: delete_def Let_def split_beta notify_snd split: sum.splits)
qed

lemma update_absent:
  "findIndex (\<lambda>t. t_id t = i) (data s) = None \<Longrightarrow> update now i f s = (Inr None, s)"
  by (simp add: update_def)

lemma delete_absent:
  "findIndex (\<lambda>t. t_id t = i) (data s) = None \<Longrightarrow> delete now i s = (Inr None, s)"
  by (simp add: delete_def)

lemma nth_opt_last: "xs \<noteq> [] \<Longrightarrow> nth_opt xs (int (length xs) - 1) = Some (last xs)"
  by (simp add: nth_opt_def last_conv_nth nat_diff_distrib')

lemma saveState_entry:
  assumes "hist_inv s"
  shows "nth_opt (history (snd (saveState descr now s))) (historyIndex (snd (saveState descr now s)))
           = Some \<lparr> state = snapshot s, description = descr, timestamp = now \<rparr>"
  using saveState_last [OF assms, of descr now] nth_opt_last [of "history (snd (saveState descr now s))"]
  by (simp add: at_end_def)

lemma saveState_current: "hist_inv s \<Longrightarrow> current (snd (saveState descr now s))"
  by (simp add: current_def saveState_entry)

lemma hist_inv_pre [simp]:
  "hist_inv (s\<lparr>data := ds\<rparr>) = hist_inv s"
  "hist_inv (s\<lparr>nextId := n\<rparr>) = hist_inv s"
  "hist_inv (s\<lparr>criticalTasks := cs\<rparr>) = hist_inv s"
  "hist_inv (s\<lparr>subscribers := subs\<rparr>) = hist_inv s"
  "hist_inv (s\<lparr>types := ty\<rparr>) = hist_inv s"
  "hist_inv (s\<lparr>projectName := pn\<rparr>) = hist_inv s"
  "hist_inv (s\<lparr>stored_types := sty\<rparr>) = hist_inv s"
  by (simp_all add: hist_inv_def)

lemma add_current: "hist_inv s \<Longrightarrow> current (snd (add c f s))"
  using add_store [of c f s] by (auto simp: saveState_current)

lemma add_at_end: "hist_inv s \<Longrightarrow> at_end (snd (add c f s))"
  using add_store [of c f s] by (auto simp: saveState_last)

lemma add_hist_inv: "hist_inv s \<Longrightarrow> hist_inv (snd (add c f s))"
  using add_store [of c f s] by (auto simp: saveState_last)

lemma update_current:
  "hist_inv s \<Longrightarrow> findIndex (\<lambda>t. t_id t = i) (data s) \<noteq> None \<Longrightarrow> current (snd (update now i f s))"
  using update_store [of i s _ now f] by (auto simp: saveState_current)

lemma update_hist_inv: "hist_inv s \<Longrightarrow> hist_inv (snd (update now i f s))"
  using update_store [of i s _ now f] update_absent [of i s now f]
  by (cases "findIndex (\<lambda>t. t_id t = i) (data s)") (auto simp: saveState_last)

lemma delete_current:
  "hist_inv s \<Longrightarrow> findIndex (\<lambda>t. t_id t = i) (data s) \<noteq> None \<Longrightarrow> current (snd (delete now i s))"
  using delete_store [of i s _ now] by (auto simp: saveState_current)

lemma delete_hist_inv: "hist_inv s \<Longrightarrow> hist_inv (snd (delete now i s))"
  using delete_store [of i s _ now] delete_absent [of i s now]
  by (cases "findIndex (\<lambda>t. t_id t = i) (data s)") (auto simp: saveState_last)

lemma importData_rejected:
  "import_value json = None \<or> import_value json = Some ImpNull
     \<Longrightarrow> importData now json s = (False, s)"
  by (auto simp: importData_def)

lemma importData_store:
  assumes "import_value json = Some v" and "v \<noteq> ImpNull"
  shows "\<exists>l. snd (importData now json s) =
     (snd (saveState DESCR_IMPORT now
         ((load_imported v s)\<lparr>history := [], historyIndex := -1\<rparr>)))\<lparr>calls := l\<rparr>"
proof (cases "fst (saveState DESCR_IMPORT now
         ((load_imported v s)\<lparr>history := [], historyIndex := -1\<rparr>))")
  case (Inl e)
  then show ?thesis using assms
    by (intro exI [of _ "calls (snd (importData now json s))"])
       (cases v; simp add: importData_def Let_def split_beta)
next
  case (Inr u)
  then show ?thesis using assms
    by (intro exI [of _ "calls (snd (importData now json s))"])
       (cases v; simp add: importData_def Let_def split_beta notify_snd split: sum.splits)
qed


lemma hist_inv_reset: "hist_inv (s\<lparr>history := [], historyIndex := -1\<rparr>)"
  by (simp add: hist_inv_def)

lemma importData_hist_inv: "hist_inv s \<Longrightarrow> hist_inv (snd (importData now json s))"
proof (cases "import_value json = None \<or> import_value json = Some ImpNull")
  case True
  assume "hist_inv s"
  with True show ?thesis by (simp add: importData_rejected)
next
  case False
  then obtain v where v: "import_value json = Some v" "v \<noteq> ImpNull" by auto
  from importData_store [OF v, of now s] show ?thesis
    by (auto simp: saveState_last hist_inv_reset)
qed

lemma importData_current:
  assumes "import_value json = Some v" and "v \<noteq> ImpNull"
  shows "current (snd (importData now json s))"
  using importData_store [OF assms, of now s] by (auto simp: saveState_current hist_inv_reset)


lemma set_from_array_aux:
  "distinct (acc @ xs) \<Longrightarrow> foldl (\<lambda>acc x. set_add x acc) acc xs = acc @ xs"
proof (induction xs arbitrary: acc)
  case Nil
  then show ?case by simp
next
  case (Cons x xs)
  from Cons.prems have "distinct ((acc @ [x]) @ xs)" by simp
  from Cons.IH [OF this] Cons.prems show ?case by (simp add: set_add_def)
qed

lemma set_from_array_distinct: "distinct xs \<Longrightarrow> set_from_array xs = xs"
  using set_from_array_aux [of "[]" xs] by (simp add: set_from_array_def)

lemma undo_not_possible: "historyIndex s \<le> 0 \<Longrightarrow> undo s = (Inr False, s)"
  by (simp add: undo_def)

lemma redo_not_possible: "\<not> historyIndex s < int (length (history s)) - 1 \<Longrightarrow> redo s = (Inr False, s)"
  by (simp add: redo_def)

lemma redo_at_end: "at_end s \<Longrightarrow> redo s = (Inr False, s)"
  by (simp add: redo_def at_end_def)

lemma undo_store:
  assumes "hist_inv s" and "0 < historyIndex s"
  shows "\<exists>l. snd (undo s) =
           (restoreState (state (history s ! nat (historyIndex s - 1)))
              (s\<lparr>historyIndex := historyIndex s - 1\<rparr>))\<lparr>calls := l\<rparr>"
    and "fst (undo s) \<noteq> Inr False"
proof -
  from assms have n: "nth_opt (history s) (historyIndex s - 1) = Some (history s ! nat (historyIndex s - 1))"
    by (simp add: nth_opt_def hist_inv_def)
  show "\<exists>l. snd (undo s) =
           (restoreState (state (history s ! nat (historyIndex s - 1)))
              (s\<lparr>historyIndex := historyIndex s - 1\<rparr>))\<lparr>calls := l\<rparr>"
    using assms n
    by (intro exI [of _ "calls (snd (undo s))"])
       (simp add: undo_def Let_def split_beta notify_snd split: sum.splits)
  show "fst (undo s) \<noteq> Inr False"
    using assms n by (simp add: undo_def Let_def split_beta split: sum.splits)
qed

lemma redo_store:
  assumes "-1 \<le> historyIndex s" and "historyIndex s < int (length (history s)) - 1"
  shows "\<exists>l. snd (redo s) =
           (restoreState (state (history s ! nat (historyIndex s + 1)))
              (s\<lparr>historyIndex := historyIndex s + 1\<rparr>))\<lparr>calls := l\<rparr>"
    and "fst (redo s) \<noteq> Inr False"
proof -
  from assms have n: "nth_opt (history s) (historyIndex s + 1) = Some (history s ! nat (historyIndex s + 1))"
    by (simp add: nth_opt_def)
  show "\<exists>l. snd (redo s) =
           (restoreState (state (history s ! nat (historyIndex s + 1)))
              (s\<lparr>historyIndex := historyIndex s + 1\<rparr>))\<lparr>calls := l\<rparr>"
    using assms n
    by (intro exI [of _ "calls (snd (redo s))"])
       (simp add: redo_def Let_def split_beta notify_snd split: sum.splits)
  show "fst (redo s) \<noteq> Inr False"
    using assms n by (simp add: redo_def Let_def split_beta split: sum.splits)
qed

lemma restoreState_fields [simp]:
  "history (restoreState st s) = history s"
  "historyIndex (restoreState st s) = historyIndex s"
  "subscribers (restoreState st s) = subscribers s"
  "data (restoreState st s) = deep_copy (sv_data st)"
  "nextId (restoreState st s) = sv_nextId st"
  "criticalTasks (restoreState st s) = set_from_array (sv_criticalTasks st)"
  by (simp_all add: restoreState_def)

lemma undo_hist_inv: "hist_inv s \<Longrightarrow> hist_inv (snd (undo s))"
proof (cases "0 < historyIndex s")
  case True
  assume h: "hist_inv s"
  from undo_store(1) [OF h True] obtain l where
    "snd (undo s) = (restoreState (state (history s ! nat (historyIndex s - 1)))
              (s\<lparr>historyIndex := historyIndex s - 1\<rparr>))\<lparr>calls := l\<rparr>" ..
  with h True show ?thesis by (simp add: hist_inv_def)
next
  case False
  assume "hist_inv s"
  with False show ?thesis by (simp add: undo_not_possible)
qed

lemma redo_hist_inv: "hist_inv s \<Longrightarrow> hist_inv (snd (redo s))"
proof (cases "historyIndex s < int (length (history s)) - 1")
  case True
  assume h: "hist_inv s"
  then have "-1 \<le> historyIndex s" by (simp add: hist_inv_def)
  from redo_store(1) [OF this True] obtain l where
    "snd (redo s) = (restoreState (state (history s ! nat (historyIndex s + 1)))
              (s\<lparr>historyIndex := historyIndex s + 1\<rparr>))\<lparr>calls := l\<rparr>" ..
  with h True show ?thesis by (simp add: hist_inv_def)
next
  case False
  assume "hist_inv s"
  with False show ?thesis by (simp add: redo_not_possible)
qed

lemma hist_inv_new_store: "hist_inv (new_store saved_types saved_name)"
  by (simp add: hist_inv_def new_store_def)

lemma hist_inv_step: "hist_inv s \<Longrightarrow> hist_inv (step x s)"
  by (cases x)
     (simp_all add: subscribe_def add_hist_inv update_hist_inv delete_hist_inv undo_hist_inv
        redo_hist_inv importData_hist_inv calculateCriticalPath_def Let_def)

lemma hist_inv_exec: "hist_inv s \<Longrightarrow> hist_inv (exec xs s)"
  by (induction xs arbitrary: s) (simp_all add: hist_inv_step)

lemma store_inv_saveState:
  "hist_inv s \<Longrightarrow> distinct (criticalTasks s) \<Longrightarrow> store_inv (snd (saveState descr now s))"
  by (simp add: store_inv_def saveState_last saveState_current)

lemma store_inv_new_store: "store_inv ((new_store saved_types saved_name)\<lparr>subscribers := subs\<rparr>)"
  by (simp add: store_inv_def hist_inv_def new_store_def)

lemma distinct_set_delete: "distinct xs \<Longrightarrow> distinct (set_delete x xs)"
  by (simp add: set_delete_def)

lemma store_inv_after:
  "r = (snd (saveState descr now s1))\<lparr>calls := l\<rparr> \<Longrightarrow> hist_inv s1
     \<Longrightarrow> distinct (criticalTasks s1) \<Longrightarrow> store_inv r"
  by (simp add: store_inv_saveState)

lemma store_inv_edit: "store_inv s \<Longrightarrow> is_edit x \<Longrightarrow> store_inv (step x s)"
proof (cases x)
  case (Add c f)
  assume inv: "store_inv s"
  from add_store [of c f s] obtain l where
    "snd (add c f s) = (snd (saveState DESCR_ADD (now_ms c)
        (s\<lparr>nextId := to_double (nextId s + 1), data := data s @ [newTask c f s]\<rparr>)))\<lparr>calls := l\<rparr>" ..
  from store_inv_after [OF this] inv Add show ?thesis by (simp add: store_inv_def)
next
  case (Update now i f)
  assume inv: "store_inv s"
  show ?thesis
  proof (cases "findIndex (\<lambda>t. t_id t = i) (data s)")
    case None
    with inv Update show ?thesis by (simp add: update_absent)
  next
    case (Some k)
    from update_store [OF Some, of now f] obtain l where
      "snd (update now i f s) = (snd (saveState DESCR_UPDATE now
        (s\<lparr>data := (data s)[k := patched s (data s ! k) f]\<rparr>)))\<lparr>calls := l\<rparr>" ..
    from store_inv_after [OF this] inv Update show ?thesis by (simp add: store_inv_def)
  qed
next
  case (Delete now i)
  assume inv: "store_inv s"
  show ?thesis
  proof (cases "findIndex (\<lambda>t. t_id t = i) (data s)")
    case None
    with inv Delete show ?thesis by (simp add: delete_absent)
  next
    case (Some k)
    from delete_store [OF Some, of now] obtain l where
      "snd (delete now i s) = (snd (saveState DESCR_DELETE now
        (s\<lparr>data := take k (data s) @ drop (Suc k) (data s),
           criticalTasks := set_delete i (criticalTasks s)\<rparr>)))\<lparr>calls := l\<rparr>" ..
    from store_inv_after [OF this] inv Delete show ?thesis
      by (simp add: store_inv_def distinct_set_delete)
  qed
qed simp_all

lemma store_inv_edits: "store_inv s \<Longrightarrow> \<forall>x\<in>set xs. is_edit x \<Longrightarrow> store_inv (exec xs s)"
  by (induction xs arbitrary: s) (simp_all add: store_inv_edit)

lemma undo_then_redo:
  assumes inv: "store_inv s" and ok: "fst (undo s) = Inr True"
  shows "live (snd (redo (snd (undo s)))) = snapshot s"
    and "fst (redo (snd (undo s))) \<noteq> Inr False"
proof -
  from ok have pos: "0 < historyIndex s"
    by (cases "0 < historyIndex s") (simp_all add: undo_not_possible)
  from inv have h: "hist_inv s" and cur: "current s" and d: "distinct (criticalTasks s)"
    using pos by (auto simp: store_inv_def)
  from undo_store(1) [OF h pos] obtain l where
    u: "snd (undo s) = (restoreState (state (history s ! nat (historyIndex s - 1)))
              (s\<lparr>historyIndex := historyIndex s - 1\<rparr>))\<lparr>calls := l\<rparr>" ..
  let ?u = "snd (undo s)"
  from u have hu: "history ?u = history s" and iu: "historyIndex ?u = historyIndex s - 1"
    by simp_all
  from h pos have lo: "-1 \<le> historyIndex ?u" and hi: "historyIndex ?u < int (length (history ?u)) - 1"
    by (simp_all add: hu iu hist_inv_def)
  from redo_store(1) [OF lo hi] obtain l' where
    r: "snd (redo ?u) = (restoreState (state (history ?u ! nat (historyIndex ?u + 1)))
              (?u\<lparr>historyIndex := historyIndex ?u + 1\<rparr>))\<lparr>calls := l'\<rparr>" ..
  from cur h pos have e: "state (history s ! nat (historyIndex s)) = snapshot s"
    by (simp add: current_def nth_opt_def hist_inv_def)
  show "live (snd (redo (snd (undo s)))) = snapshot s"
    using d by (simp add: r hu iu e live_def) (simp add: snapshot_def set_from_array_distinct)
  from redo_store(2) [OF lo hi] show "fst (redo (snd (undo s))) \<noteq> Inr False" .
qed

lemma findIndex_None: "findIndex P xs = None \<longleftrightarrow> (\<forall>x\<in>set xs. \<not> P x)"
  by (induction xs) auto

subsection \<open>The cursor after \<^verbatim>\<open>saveState\<close>\<close>

text \<open>In a store with a well-formed history, after \<^verbatim>\<open>saveState\<close> the entry
  \<^verbatim>\<open>history[historyIndex]\<close> is the entry just written, on the branch that appends as well
  as on the branch that evicts the oldest entry when the history has \<open>maxHistory\<close>
  entries: the cursor never drifts. The state of that entry is the snapshot, the JSON copy
  of the live state. The same holds after each operation that calls \<^verbatim>\<open>saveState\<close>:
  \<^verbatim>\<open>add\<close>, \<^verbatim>\<open>update\<close> and \<^verbatim>\<open>delete\<close> of a known id, and \<^verbatim>\<open>importData\<close> of a value it
  accepts. The snapshot is the live state itself when the colour of every task is a
  string.\<close>

lemma saveState_cursor_on_entry:
  assumes "hist_inv s"
  shows "(let s' = snd (saveState descr now s) in
            nth_opt (history s') (historyIndex s')
              = Some \<lparr> state = snapshot s', description = descr, timestamp = now \<rparr>)
         \<and> current (snd (add c task s))
         \<and> (findIndex (\<lambda>t. t_id t = i) (data s) \<noteq> None \<longrightarrow>
               current (snd (update now i f s)) \<and> current (snd (delete now i s)))
         \<and> (import_value json \<noteq> None \<and> import_value json \<noteq> Some ImpNull \<longrightarrow>
               current (snd (importData now json s)))"
proof (intro conjI impI)
  show "let s' = snd (saveState descr now s) in
            nth_opt (history s') (historyIndex s')
              = Some \<lparr> state = snapshot s', description = descr, timestamp = now \<rparr>"
    using assms by (simp add: Let_def saveState_entry)
  show "current (snd (add c task s))"
    using assms by (rule add_current)
next
  assume "findIndex (\<lambda>t. t_id t = i) (data s) \<noteq> None"
  with assms show "current (snd (update now i f s))" and "current (snd (delete now i s))"
    by (simp_all add: update_current delete_current)
next
  assume "import_value json \<noteq> None \<and> import_value json \<noteq> Some ImpNull"
  then obtain v where "import_value json = Some v" and "v \<noteq> ImpNull" by auto
  then show "current (snd (importData now json s))" by (rule importData_current)
qed

lemma snapshot_is_live:
  "\<forall>t\<in>set (data s). \<exists>v. t_color t = Str v \<Longrightarrow> snapshot s = live s"
  by (simp add: snapshot_def live_def deep_copy_strings)

text \<open>The branch that evicts, on a store with \<open>maxHistory\<close> entries.\<close>

lemma full_store_hist_inv: "hist_inv full_store"
  by (simp add: hist_inv_def full_store_def maxHistory_def)

lemma saveState_cursor_on_entry_full:
  "(let s' = snd (saveState ''edit'' 7 full_store) in
      nth_opt (history s') (historyIndex s')
        = Some \<lparr> state = snapshot s', description = ''edit'', timestamp = 7 \<rparr>)
   \<and> current (snd (add clock0 no_fields full_store))"
  using saveState_cursor_on_entry [OF full_store_hist_inv] by blast

text \<open>Claim C1 asks that, after every call of \<^verbatim>\<open>saveState\<close>, the state stored in
  \<^verbatim>\<open>history[historyIndex]\<close> deep-equals the live state. The code does not do that for
  \<^verbatim>\<open>add({type: 'constructor'})\<close> on a new store. The lookup \<^verbatim>\<open>this.types[task.type]\<close>
  finds the inherited property \<^verbatim>\<open>constructor\<close>, so the colour of the live task is a
  function; \<^verbatim>\<open>JSON.stringify\<close> leaves a function out, so the task in the snapshot has no
  colour. After the call the cursor is 0, on the one entry, which is the entry just
  written, but its state is not the live state.\<close>

theorem snapshot_differs_from_live_state:
  "historyIndex (snd (add clock0 inherited_type (new_store None None))) = 0
   \<and> length (history (snd (add clock0 inherited_type (new_store None None)))) = 1
   \<and> map t_color (data (snd (add clock0 inherited_type (new_store None None))))
       = [Fn ''constructor'']
   \<and> map (\<lambda>e. map t_color (sv_data (state e)))
         (history (snd (add clock0 inherited_type (new_store None None))))
       = [[Absent]]
   \<and> \<not> current_is_live (snd (add clock0 inherited_type (new_store None None)))"
  by code_simp

subsection \<open>Unknown ids\<close>

text \<open>Claim C8. For an id that no task of the list has, \<^verbatim>\<open>update\<close> and \<^verbatim>\<open>delete\<close>
  return \<^verbatim>\<open>null\<close> and leave the store as it was: the same task list, history and
  cursor, and no subscriber invoked (the trace \<open>calls\<close> is unchanged, as every other
  field is).\<close>

theorem unknown_id_is_noop:
  assumes "i \<notin> t_id ` set (data s)"
  shows "update now i f s = (Inr None, s) \<and> delete now i s = (Inr None, s)"
proof -
  from assms have "findIndex (\<lambda>t. t_id t = i) (data s) = None"
    by (auto simp: findIndex_None)
  then show ?thesis by (simp add: update_absent delete_absent)
qed

theorem unknown_id_is_noop_witness:
  "9 \<notin> t_id ` set (data three_tasks)
   \<and> update 7 9 (no_fields\<lparr>f_progress := Some 40\<rparr>) three_tasks = (Inr None, three_tasks)
   \<and> delete 7 9 three_tasks = (Inr None, three_tasks)"
proof -
  have h: "9 \<notin> t_id ` set (data three_tasks)" by code_simp
  from unknown_id_is_noop [OF h, of 7 "no_fields\<lparr>f_progress := Some 40\<rparr>"] h
  show ?thesis by blast
qed

subsection \<open>Import\<close>



subsection \<open>Undo followed by redo\<close>

text \<open>After any sequence of \<^verbatim>\<open>add\<close>, \<^verbatim>\<open>update\<close> and \<^verbatim>\<open>delete\<close> calls (on a new store with
  any subscribers, or on any store that satisfies \<open>store_inv\<close>), an \<^verbatim>\<open>undo\<close> that returns
  \<^verbatim>\<open>true\<close> followed at once by \<^verbatim>\<open>redo\<close> leaves as live state the snapshot (the JSON copy)
  of the state that held before the \<^verbatim>\<open>undo\<close>, and the \<^verbatim>\<open>redo\<close> does not answer
  \<^verbatim>\<open>false\<close>. That is the state before the \<^verbatim>\<open>undo\<close> itself when the colour of every task
  is a string.\<close>

lemma undo_redo_restores_snapshot:
  assumes "store_inv s0" and "\<forall>x\<in>set ops. is_edit x" and "fst (undo (exec ops s0)) = Inr True"
  shows "live (snd (redo (snd (undo (exec ops s0))))) = snapshot (exec ops s0)
         \<and> fst (redo (snd (undo (exec ops s0)))) \<noteq> Inr False"
  using undo_then_redo [OF store_inv_edits [OF assms(1,2)] assms(3)] by simp

lemma undo_redo_roundtrip_strings:
  assumes "store_inv s0" and "\<forall>x\<in>set ops. is_edit x" and "fst (undo (exec ops s0)) = Inr True"
    and "\<forall>t\<in>set (data (exec ops s0)). \<exists>v. t_color t = Str v"
  shows "live (snd (redo (snd (undo (exec ops s0))))) = live (exec ops s0)"
  using undo_redo_restores_snapshot [OF assms(1,2,3)] snapshot_is_live [OF assms(4)] by simp

text \<open>Claim C2 asks that \<^verbatim>\<open>undo\<close> followed by \<^verbatim>\<open>redo\<close> restores a state deep-equal to
  the one before the \<^verbatim>\<open>undo\<close>, after any sequence of \<^verbatim>\<open>add\<close>, \<^verbatim>\<open>update\<close> and \<^verbatim>\<open>delete\<close>.
  The code does not do that after \<^verbatim>\<open>add({}); add({type: 'constructor'})\<close> on a new store.
  Both \<^verbatim>\<open>undo\<close> and \<^verbatim>\<open>redo\<close> return \<^verbatim>\<open>true\<close>; before the \<^verbatim>\<open>undo\<close> the colour of the
  second task is the function that \<^verbatim>\<open>this.types['constructor']\<close> found on
  \<^verbatim>\<open>Object.prototype\<close>, after the \<^verbatim>\<open>redo\<close> the task has no colour, because the snapshot
  that \<^verbatim>\<open>redo\<close> restores is a JSON copy.\<close>

theorem undo_redo_loses_inherited_colour:
  "fst (undo (exec [Add clock0 no_fields, Add clock0 inherited_type] (new_store None None)))
     = Inr True
   \<and> fst (redo (snd (undo
           (exec [Add clock0 no_fields, Add clock0 inherited_type] (new_store None None)))))
     = Inr True
   \<and> map t_color
         (data (exec [Add clock0 no_fields, Add clock0 inherited_type] (new_store None None)))
     = [Str ''#5da7ff'', Fn ''constructor'']
   \<and> map t_color
         (data (snd (redo (snd (undo
            (exec [Add clock0 no_fields, Add clock0 inherited_type] (new_store None None)))))))
     = [Str ''#5da7ff'', Absent]
   \<and> live (snd (redo (snd (undo
            (exec [Add clock0 no_fields, Add clock0 inherited_type] (new_store None None))))))
     \<noteq> live (exec [Add clock0 no_fields, Add clock0 inherited_type] (new_store None None))"
  by code_simp

subsection \<open>Editing after undo\<close>

lemma update_at_end:
  "hist_inv s \<Longrightarrow> findIndex (\<lambda>t. t_id t = i) (data s) \<noteq> None \<Longrightarrow> at_end (snd (update now i f s))"
  using update_store [of i s _ now f] by (auto simp: saveState_last)

lemma delete_at_end:
  "hist_inv s \<Longrightarrow> findIndex (\<lambda>t. t_id t = i) (data s) \<noteq> None \<Longrightarrow> at_end (snd (delete now i s))"
  using delete_store [of i s _ now] by (auto simp: saveState_last)

lemma pruned_after:
  assumes "r = (snd (saveState descr now s1))\<lparr>calls := l\<rparr>" and "hist_inv s1"
    and "historyIndex s1 < int (length (history s1)) - 1"
  shows "history r = take (nat (historyIndex s1 + 1)) (history s1)
                     @ [\<lparr> state = snapshot r, description = descr, timestamp = now \<rparr>]"
  using assms saveState_pruned(1) [OF assms(2), of descr now]
  by (auto simp: hist_inv_def)

text \<open>Claim C3. In a store with a well-formed history, after any number \<open>k\<close> of \<^verbatim>\<open>undo\<close>
  calls a mutating operation leaves nothing to redo: \<^verbatim>\<open>redo()\<close> right after \<^verbatim>\<open>add(x)\<close>
  returns \<^verbatim>\<open>false\<close>, and so it does after \<^verbatim>\<open>update\<close> and \<^verbatim>\<open>delete\<close> of a known id. When
  there were entries after the cursor (\<^verbatim>\<open>canRedo()\<close> held), the history after the
  operation is the entries up to the cursor followed by the new entry, the snapshot of
  the state after the operation: every entry after the cursor is discarded.\<close>

theorem edit_after_undo_prunes_redo:
  assumes "hist_inv s"
  shows "let s1 = exec (replicate k Undo) s in
           fst (redo (snd (add c task s1))) = Inr False
           \<and> (canRedo s1 \<longrightarrow>
                 history (snd (add c task s1)) =
                   take (nat (historyIndex s1 + 1)) (history s1)
                   @ [\<lparr> state = snapshot (snd (add c task s1)), description = DESCR_ADD,
                        timestamp = now_ms c \<rparr>])
           \<and> (findIndex (\<lambda>t. t_id t = i) (data s1) \<noteq> None \<longrightarrow>
                 fst (redo (snd (update now i f s1))) = Inr False
                 \<and> fst (redo (snd (delete now i s1))) = Inr False
                 \<and> (canRedo s1 \<longrightarrow>
                       history (snd (update now i f s1)) =
                         take (nat (historyIndex s1 + 1)) (history s1)
                         @ [\<lparr> state = snapshot (snd (update now i f s1)),
                              description = DESCR_UPDATE, timestamp = now \<rparr>]
                       \<and> history (snd (delete now i s1)) =
                         take (nat (historyIndex s1 + 1)) (history s1)
                         @ [\<lparr> state = snapshot (snd (delete now i s1)),
                              description = DESCR_DELETE, timestamp = now \<rparr>]))"
proof -
  define s1 where "s1 = exec (replicate k Undo) s"
  from assms have h: "hist_inv s1" unfolding s1_def by (rule hist_inv_exec)
  have a: "fst (redo (snd (add c task s1))) = Inr False"
    using add_at_end [OF h] by (simp add: redo_at_end)
  have b: "fst (redo (snd (update now i f s1))) = Inr False
           \<and> fst (redo (snd (delete now i s1))) = Inr False"
    if "findIndex (\<lambda>t. t_id t = i) (data s1) \<noteq> None"
    using update_at_end [OF h that] delete_at_end [OF h that] by (simp add: redo_at_end)
  have c: "history (snd (add c task s1)) =
             take (nat (historyIndex s1 + 1)) (history s1)
             @ [\<lparr> state = snapshot (snd (add c task s1)), description = DESCR_ADD,
                  timestamp = now_ms c \<rparr>]"
    if "canRedo s1"
  proof -
    from add_store [of c task s1] obtain l where
      "snd (add c task s1) = (snd (saveState DESCR_ADD (now_ms c)
         (s1\<lparr>nextId := to_double (nextId s1 + 1), data := data s1 @ [newTask c task s1]\<rparr>)))\<lparr>calls := l\<rparr>" ..
    from pruned_after [OF this] h that show ?thesis by (simp add: canRedo_def)
  qed
  have d: "history (snd (update now i f s1)) =
             take (nat (historyIndex s1 + 1)) (history s1)
             @ [\<lparr> state = snapshot (snd (update now i f s1)),
                  description = DESCR_UPDATE, timestamp = now \<rparr>]
           \<and> history (snd (delete now i s1)) =
             take (nat (historyIndex s1 + 1)) (history s1)
             @ [\<lparr> state = snapshot (snd (delete now i s1)),
                  description = DESCR_DELETE, timestamp = now \<rparr>]"
    if found: "findIndex (\<lambda>t. t_id t = i) (data s1) \<noteq> None" and cr: "canRedo s1"
  proof -
    from found obtain j where j: "findIndex (\<lambda>t. t_id t = i) (data s1) = Some j" by auto
    from update_store [OF j, of now f] obtain l where
      "snd (update now i f s1) = (snd (saveState DESCR_UPDATE now
         (s1\<lparr>data := (data s1)[j := patched s1 (data s1 ! j) f]\<rparr>)))\<lparr>calls := l\<rparr>" ..
    from pruned_after [OF this] h cr have u: "history (snd (update now i f s1)) =
             take (nat (historyIndex s1 + 1)) (history s1)
             @ [\<lparr> state = snapshot (snd (update now i f s1)),
                  description = DESCR_UPDATE, timestamp = now \<rparr>]"
      by (simp add: canRedo_def)
    from delete_store [OF j, of now] obtain l' where
      "snd (delete now i s1) = (snd (saveState DESCR_DELETE now
         (s1\<lparr>data := take j (data s1) @ drop (Suc j) (data s1),
            criticalTasks := set_delete i (criticalTasks s1)\<rparr>)))\<lparr>calls := l'\<rparr>" ..
    from pruned_after [OF this] h cr have "history (snd (delete now i s1)) =
             take (nat (historyIndex s1 + 1)) (history s1)
             @ [\<lparr> state = snapshot (snd (delete now i s1)),
                  description = DESCR_DELETE, timestamp = now \<rparr>]"
      by (simp add: canRedo_def)
    with u show ?thesis by simp
  qed
  from a b c d show ?thesis unfolding s1_def [symmetric] Let_def by blast
qed

theorem edit_after_undo_prunes_redo_witness:
  "hist_inv three_tasks
   \<and> (let s1 = exec (replicate 2 Undo) three_tasks in
           findIndex (\<lambda>t. t_id t = 1) (data s1) \<noteq> None
           \<and> canRedo s1
           \<and> fst (redo (snd (add clock0 no_fields s1))) = Inr False
           \<and> fst (redo (snd (update 7 1 no_fields s1))) = Inr False
           \<and> fst (redo (snd (delete 7 1 s1))) = Inr False
           \<and> history (snd (add clock0 no_fields s1)) =
                 take (nat (historyIndex s1 + 1)) (history s1)
                 @ [\<lparr> state = snapshot (snd (add clock0 no_fields s1)), description = DESCR_ADD,
                      timestamp = now_ms clock0 \<rparr>]
           \<and> history (snd (update 7 1 no_fields s1)) =
                 take (nat (historyIndex s1 + 1)) (history s1)
                 @ [\<lparr> state = snapshot (snd (update 7 1 no_fields s1)),
                      description = DESCR_UPDATE, timestamp = 7 \<rparr>]
           \<and> history (snd (delete 7 1 s1)) =
                 take (nat (historyIndex s1 + 1)) (history s1)
                 @ [\<lparr> state = snapshot (snd (delete 7 1 s1)),
                      description = DESCR_DELETE, timestamp = 7 \<rparr>])"
proof -
  have h: "hist_inv three_tasks" by code_simp
  have k: "findIndex (\<lambda>t. t_id t = 1) (data (exec (replicate 2 Undo) three_tasks)) \<noteq> None"
    by code_simp
  have r: "canRedo (exec (replicate 2 Undo) three_tasks)" by code_simp
  from edit_after_undo_prunes_redo [OF h, of 2 clock0 no_fields 1 7 no_fields] h k r
  show ?thesis unfolding Let_def by blast
qed

subsection \<open>The ids that \<^verbatim>\<open>add\<close> assigns\<close>

lemma saveState_at_end: "at_end s \<Longrightarrow> at_end (snd (saveState descr now s))"
  by (cases "history s")
     (auto simp: at_end_def saveState_history saveState_historyIndex Let_def maxHistory_def)

lemma add_returns: "fst (add c task s) = Inr t \<Longrightarrow> t = newTask c task s"
  by (auto simp: add_def Let_def split_beta split: sum.splits)

lemma add_nextId: "nextId (snd (add c task s)) = to_double (nextId s + 1)"
  using add_store [of c task s] by auto

lemma add_at_end': "at_end s \<Longrightarrow> at_end (snd (add c task s))"
  using add_store [of c task s]
    saveState_at_end [of "s\<lparr>nextId := to_double (nextId s + 1), data := data s @ [newTask c task s]\<rparr>"]
  by (auto simp: at_end_def)

lemma update_forward:
  "at_end s \<Longrightarrow> at_end (snd (update now i f s)) \<and> nextId (snd (update now i f s)) = nextId s"
proof (cases "findIndex (\<lambda>t. t_id t = i) (data s)")
  case None
  assume "at_end s"
  with None show ?thesis by (simp add: update_absent)
next
  case (Some k)
  assume "at_end s"
  with update_store [OF Some, of now f]
    saveState_at_end [of "s\<lparr>data := (data s)[k := patched s (data s ! k) f]\<rparr>"]
  show ?thesis by (auto simp: at_end_def)
qed

lemma delete_forward:
  "at_end s \<Longrightarrow> at_end (snd (delete now i s)) \<and> nextId (snd (delete now i s)) = nextId s"
proof (cases "findIndex (\<lambda>t. t_id t = i) (data s)")
  case None
  assume "at_end s"
  with None show ?thesis by (simp add: delete_absent)
next
  case (Some k)
  assume "at_end s"
  with delete_store [OF Some, of now]
    saveState_at_end [of "s\<lparr>data := take k (data s) @ drop (Suc k) (data s),
           criticalTasks := set_delete i (criticalTasks s)\<rparr>"]
  show ?thesis by (auto simp: at_end_def)
qed

lemma step_forward:
  assumes "at_end s" and "\<not> rewinds x" and "0 \<le> nextId s" and "nextId s + 1 < 2 ^ 53"
  shows "at_end (step x s) \<and> nextId s \<le> nextId (step x s)
         \<and> nextId (step x s) \<le> nextId s + 1"
proof (cases x)
  case (Subscribe cb)
  with assms show ?thesis by (simp add: subscribe_def at_end_def)
next
  case (Add c task)
  from assms(3,4) have "to_double (nextId s + 1) = nextId s + 1"
    by (intro to_double_exact) simp
  with Add assms show ?thesis by (simp add: add_at_end' add_nextId)
next
  case (Update now i f)
  with assms update_forward [of s now i f] show ?thesis by simp
next
  case (Delete now i)
  with assms delete_forward [of s now i] show ?thesis by simp
next
  case Undo
  with assms show ?thesis by simp
next
  case Redo
  with assms show ?thesis by (simp add: redo_at_end)
next
  case CalculateCriticalPath
  with assms show ?thesis by (simp add: calculateCriticalPath_def Let_def at_end_def)
next
  case (ImportData now json)
  with assms show ?thesis by simp
qed

lemma added_ids_forward:
  assumes "at_end s" and "\<forall>x\<in>set ops. \<not> rewinds x"
    and "0 \<le> nextId s" and "nextId s + int (length ops) < 2 ^ 53"
  shows "sorted_wrt (<) (added_ids ops s) \<and> (\<forall>i\<in>set (added_ids ops s). nextId s \<le> i)"
  using assms
proof (induction ops arbitrary: s)
  case Nil
  then show ?case by simp
next
  case (Cons x xs)
  from Cons.prems have nr: "\<not> rewinds x" and rest: "\<forall>y\<in>set xs. \<not> rewinds y" by simp_all
  from Cons.prems have room: "nextId s + 1 < 2 ^ 53" by simp
  from step_forward [OF Cons.prems(1) nr Cons.prems(3) room]
  have e: "at_end (step x s)" and n: "nextId s \<le> nextId (step x s)"
    and m: "nextId (step x s) \<le> nextId s + 1" by simp_all
  from n Cons.prems(3) have pos: "0 \<le> nextId (step x s)" by simp
  from m Cons.prems(4) have bound: "nextId (step x s) + int (length xs) < 2 ^ 53" by simp
  from Cons.IH [OF e rest pos bound]
  have ih: "sorted_wrt (<) (added_ids xs (step x s))"
    and lb: "\<forall>i\<in>set (added_ids xs (step x s)). nextId (step x s) \<le> i" by simp_all
  show ?case
  proof (cases x)
    case (Add c task)
    from Cons.prems(3) room have exact: "to_double (nextId s + 1) = nextId s + 1"
      by (intro to_double_exact) simp
    show ?thesis
    proof (cases "fst (add c task s)")
      case (Inl e)
      with Add ih lb n show ?thesis by auto
    next
      case (Inr t)
      from add_returns [OF Inr] have "t_id t = nextId s" by (simp add: newTask_def)
      moreover have "nextId (step x s) = nextId s + 1" using Add exact by (simp add: add_nextId)
      ultimately show ?thesis using Add Inr ih lb by auto
    qed
  qed (use ih lb n in auto)
qed

text \<open>Why the counter has to stay below \<open>2\<^sup>5\<^sup>3\<close>: there \<^verbatim>\<open>this.nextId++\<close> no longer
  changes the counter. After the import of one task with the id \<open>2\<^sup>5\<^sup>3 - 1\<close> into a new
  store, two calls of \<^verbatim>\<open>add\<close> return the same id.\<close>

lemma add_repeats_id_at_2_53:
  "added_ids [ImportData 7 (JsonValue (ImpArray [task1\<lparr>t_id := 2 ^ 53 - 1\<rparr>])),
              Add clock0 no_fields, Add clock0 no_fields] (new_store None None)
     = [2 ^ 53, 2 ^ 53]"
  by code_simp

text \<open>Claim C4, as stated, fails: \<^verbatim>\<open>undo\<close> restores \<^verbatim>\<open>nextId\<close> from the snapshot, so
  the session \<^verbatim>\<open>add; add; undo; add\<close> on a new store returns the ids 1, 2, 2. The third
  \<^verbatim>\<open>add\<close> returns an id that was assigned before.\<close>

theorem added_ids_counterexample:
  "added_ids [Add clock0 no_fields, Add clock0 no_fields, Undo, Add clock0 no_fields]
     (new_store None None) = [1, 2, 2]
   \<and> \<not> sorted_wrt (<)
         (added_ids [Add clock0 no_fields, Add clock0 no_fields, Undo, Add clock0 no_fields]
            (new_store None None))"
  by code_simp

text \<open>Claim C4, amended. In a session without \<^verbatim>\<open>undo\<close> and without \<^verbatim>\<open>importData\<close>,
  started in a store whose cursor is at the end of its history (a new store is one) and
  in which the counter \<^verbatim>\<open>nextId\<close> stays below \<open>2\<^sup>5\<^sup>3\<close>, where \<^verbatim>\<open>nextId++\<close> is exact
  (the counter is not negative at the start, and the counter plus the number of calls is
  below \<open>2\<^sup>5\<^sup>3\<close>), the ids that the calls of \<^verbatim>\<open>add\<close> return are strictly increasing, and
  none is below the \<^verbatim>\<open>nextId\<close> of the start; deletions in between do not change that, so
  \<^verbatim>\<open>delete(maxId); add(y)\<close> gives \<^verbatim>\<open>y.id > maxId\<close>.\<close>

theorem added_ids_increasing:
  assumes "at_end s" and "\<forall>x\<in>set ops. \<not> rewinds x"
    and "0 \<le> nextId s" and "nextId s + int (length ops) < 2 ^ 53"
  shows "sorted_wrt (<) (added_ids ops s) \<and> (\<forall>i\<in>set (added_ids ops s). nextId s \<le> i)"
  using assms by (rule added_ids_forward)

theorem added_ids_increasing_witness:
  "at_end (new_store None None)
   \<and> list_all (\<lambda>x. \<not> rewinds x)
         [Add clock0 no_fields, Add clock0 no_fields, Delete 7 2, Add clock0 no_fields,
          Redo, CalculateCriticalPath, Update 7 1 no_fields, Add clock0 no_fields]
   \<and> 0 \<le> nextId (new_store None None)
   \<and> nextId (new_store None None)
         + int (length [Add clock0 no_fields, Add clock0 no_fields, Delete 7 2,
                        Add clock0 no_fields, Redo, CalculateCriticalPath,
                        Update 7 1 no_fields, Add clock0 no_fields]) < 2 ^ 53
   \<and> sorted_wrt (<)
         (added_ids [Add clock0 no_fields, Add clock0 no_fields, Delete 7 2, Add clock0 no_fields,
                     Redo, CalculateCriticalPath, Update 7 1 no_fields, Add clock0 no_fields]
            (new_store None None))
   \<and> list_all (\<lambda>i. nextId (new_store None None) \<le> i)
         (added_ids [Add clock0 no_fields, Add clock0 no_fields, Delete 7 2, Add clock0 no_fields,
                     Redo, CalculateCriticalPath, Update 7 1 no_fields, Add clock0 no_fields]
            (new_store None None))"
proof -
  have a: "at_end (new_store None None)" by (simp add: at_end_def new_store_def)
  have b: "\<forall>x\<in>set [Add clock0 no_fields, Add clock0 no_fields, Delete 7 2, Add clock0 no_fields,
                  Redo, CalculateCriticalPath, Update 7 1 no_fields, Add clock0 no_fields].
          \<not> rewinds x" by simp
  have c: "0 \<le> nextId (new_store None None)" by (simp add: new_store_def)
  have d: "nextId (new_store None None)
         + int (length [Add clock0 no_fields, Add clock0 no_fields, Delete 7 2,
                        Add clock0 no_fields, Redo, CalculateCriticalPath,
                        Update 7 1 no_fields, Add clock0 no_fields]) < 2 ^ 53"
    by (simp add: new_store_def)
  from added_ids_increasing [OF a b c d] a b c d show ?thesis by (simp add: list_all_iff)
qed

subsection \<open>Progress values\<close>

lemma findIndex_Some_less: "findIndex P xs = Some k \<Longrightarrow> k < length xs \<and> P (xs ! k)"
  by (induction xs arbitrary: k) (auto split: if_splits)

lemma quiet_dispatch:
  assumes "\<forall>cb\<in>set cbs. \<forall>a d. cb a d = Returns"
  shows "snd (dispatch cbs k action d) = None"
  using assms by (auto simp: dispatch_exn findIndex_None)

lemma quiet_notify:
  assumes "\<forall>cb\<in>set (subscribers s). \<forall>a d. cb a d = Returns"
  shows "fst (notify action d s) = Inr ()"
  using quiet_dispatch [OF assms] by (simp add: notify_fst)

lemma quiet_saveState:
  assumes "\<forall>cb\<in>set (subscribers s). \<forall>a d. cb a d = Returns"
  shows "fst (saveState descr now s) = Inr ()"
  using quiet_dispatch [OF assms] by (simp add: saveState_fst)

lemma or_int_0: "or_int x 0 = (case x of None \<Rightarrow> 0 | Some p \<Rightarrow> p)"
  by (simp add: or_int_def split: option.splits)

lemma add_data: "data (snd (add c task s)) = data s @ [newTask c task s]"
  using add_store [of c task s] by auto

lemma update_data:
  "findIndex (\<lambda>t. t_id t = i) (data s) = Some k
     \<Longrightarrow> data (snd (update now i f s)) = (data s)[k := patched s (data s ! k) f]"
  using update_store [of i s k now f] by auto

lemma add_subscribers: "subscribers (snd (add c task s)) = subscribers s"
  using add_store [of c task s] by auto

lemma quiet_add:
  assumes "\<forall>cb\<in>set (subscribers s). \<forall>a d. cb a d = Returns"
  shows "fst (add c task s) = Inr (newTask c task s)"
proof -
  let ?s1 = "s\<lparr>nextId := to_double (nextId s + 1), data := data s @ [newTask c task s]\<rparr>"
  from assms have q1: "\<forall>cb\<in>set (subscribers ?s1). \<forall>a d. cb a d = Returns" by simp
  then have q2: "\<forall>cb\<in>set (subscribers (snd (saveState DESCR_ADD (now_ms c) ?s1))).
                   \<forall>a d. cb a d = Returns" by simp
  from quiet_saveState [OF q1, of DESCR_ADD "now_ms c"]
       quiet_notify [OF q2, of "''add''" "TaskData (newTask c task s)"]
  show ?thesis by (simp add: add_def Let_def split_beta)
qed

lemma quiet_update:
  assumes "\<forall>cb\<in>set (subscribers s). \<forall>a d. cb a d = Returns"
    and "findIndex (\<lambda>t. t_id t = i) (data s) = Some k"
  shows "fst (update now i f s) = Inr (Some (patched s (data s ! k) f))"
proof -
  let ?s1 = "s\<lparr>data := (data s)[k := patched s (data s ! k) f]\<rparr>"
  from assms(1) have q1: "\<forall>cb\<in>set (subscribers ?s1). \<forall>a d. cb a d = Returns" by simp
  then have q2: "\<forall>cb\<in>set (subscribers (snd (saveState DESCR_UPDATE now ?s1))).
                   \<forall>a d. cb a d = Returns" by simp
  from quiet_saveState [OF q1, of DESCR_UPDATE now]
       quiet_notify [OF q2, of "''update''" "TaskData (patched s (data s ! k) f)"]
  show ?thesis using assms(2) by (simp add: update_def Let_def split_beta)
qed

lemma patched_progress: "f_progress f = Some p \<Longrightarrow> t_progress (patched s t f) = p"
  by (simp add: patched_def assign_def assigned_def Let_def)

text \<open>Claim C5, as stated, fails: the store does not clamp. \<^verbatim>\<open>add({progress: 150})\<close>
  stores 150, and \<^verbatim>\<open>update(1, {progress: -5})\<close> stores \<open>-5\<close>.\<close>

theorem progress_clamp_counterexample:
  "map t_progress
     (data (snd (add clock0 (no_fields\<lparr>f_progress := Some 150\<rparr>) (new_store None None)))) = [150]
   \<and> fst (update 7 1 (no_fields\<lparr>f_progress := Some (-5)\<rparr>) three_tasks) \<noteq> Inr None
   \<and> map t_progress
     (data (snd (update 7 1 (no_fields\<lparr>f_progress := Some (-5)\<rparr>) three_tasks))) = [-5, 0, 0]"
  by code_simp

text \<open>Claim C5, amended. When no subscriber throws, \<^verbatim>\<open>add\<close> returns the new task and
  does not throw, and the task it stores has the progress given (0 when the property is
  absent); \<^verbatim>\<open>update\<close> of a known id with a progress in the patch returns the task, does
  not throw, and the task stored has exactly that progress. No value is clamped.\<close>

theorem progress_stored_as_given:
  assumes "\<forall>cb\<in>set (subscribers s). \<forall>a d. cb a d = Returns"
  shows "fst (add c task s) = Inr (newTask c task s)
         \<and> data (snd (add c task s)) = data s @ [newTask c task s]
         \<and> t_progress (newTask c task s) = (case f_progress task of None \<Rightarrow> 0 | Some p \<Rightarrow> p)
         \<and> (findIndex (\<lambda>t. t_id t = i) (data s) = Some k \<and> f_progress f = Some p \<longrightarrow>
               fst (update now i f s) = Inr (Some (data (snd (update now i f s)) ! k))
               \<and> t_progress (data (snd (update now i f s)) ! k) = p)"
proof (intro conjI impI)
  show "fst (add c task s) = Inr (newTask c task s)" using assms by (rule quiet_add)
  show "data (snd (add c task s)) = data s @ [newTask c task s]" by (rule add_data)
  show "t_progress (newTask c task s) = (case f_progress task of None \<Rightarrow> 0 | Some p \<Rightarrow> p)"
    by (simp add: newTask_def or_int_0)
next
  assume a: "findIndex (\<lambda>t. t_id t = i) (data s) = Some k \<and> f_progress f = Some p"
  then have k: "findIndex (\<lambda>t. t_id t = i) (data s) = Some k" and p: "f_progress f = Some p"
    by simp_all
  from findIndex_Some_less [OF k] have lt: "k < length (data s)" by simp
  from update_data [OF k, of now f] lt
  have d: "data (snd (update now i f s)) ! k = patched s (data s ! k) f" by simp
  show "fst (update now i f s) = Inr (Some (data (snd (update now i f s)) ! k))"
    using quiet_update [OF assms k, of now f] d by simp
  show "t_progress (data (snd (update now i f s)) ! k) = p"
    using d patched_progress [OF p] by simp
qed

theorem progress_stored_as_given_witness:
  "list_all (\<lambda>cb. \<forall>a d. cb a d = Returns) (subscribers three_tasks)
   \<and> findIndex (\<lambda>t. t_id t = 2) (data three_tasks) = Some 1
   \<and> f_progress (no_fields\<lparr>f_progress := Some 250\<rparr>) = Some 250
   \<and> fst (add clock0 (no_fields\<lparr>f_progress := Some 250\<rparr>) three_tasks)
       = Inr (newTask clock0 (no_fields\<lparr>f_progress := Some 250\<rparr>) three_tasks)
   \<and> t_progress (newTask clock0 (no_fields\<lparr>f_progress := Some 250\<rparr>) three_tasks) = 250
   \<and> fst (update 7 2 (no_fields\<lparr>f_progress := Some 250\<rparr>) three_tasks)
       = Inr (Some (data (snd (update 7 2 (no_fields\<lparr>f_progress := Some 250\<rparr>) three_tasks)) ! 1))
   \<and> t_progress (data (snd (update 7 2 (no_fields\<lparr>f_progress := Some 250\<rparr>) three_tasks)) ! 1)
       = 250"
proof -
  have q: "\<forall>cb\<in>set (subscribers three_tasks). \<forall>a d. cb a d = Returns"
  proof -
    have "subscribers three_tasks = [quiet]"
      by (simp add: three_tasks_def add_subscribers subscribe_def new_store_def)
    then show ?thesis by (simp add: quiet_def)
  qed
  have k: "findIndex (\<lambda>t. t_id t = 2) (data three_tasks) = Some 1" by code_simp
  have p: "f_progress (no_fields\<lparr>f_progress := Some 250\<rparr>) = Some 250" by simp
  from progress_stored_as_given [OF q, of clock0 "no_fields\<lparr>f_progress := Some 250\<rparr>"
      2 1 "no_fields\<lparr>f_progress := Some 250\<rparr>" 250 7] q k p
  show ?thesis by (simp add: list_all_iff)
qed

subsection \<open>Notification\<close>

text \<open>Claim C6, as stated, fails: with a first subscriber that throws and a second one
  that does not, \<^verbatim>\<open>notify\<close> invokes the first, the exception leaves \<^verbatim>\<open>forEach\<close>, and the
  second subscriber is never invoked.\<close>

theorem notify_isolation_counterexample:
  "fst (notify ''add'' (TaskData task1) (subscribe quiet (subscribe failing (new_store None None))))
     = Inl (SubscriberError 0)
   \<and> calls (snd (notify ''add'' (TaskData task1)
                    (subscribe quiet (subscribe failing (new_store None None)))))
     = [(0, ''add'', TaskData task1)]
   \<and> (1, ''add'', TaskData task1)
       \<notin> set (calls (snd (notify ''add'' (TaskData task1)
                    (subscribe quiet (subscribe failing (new_store None None))))))"
  by (simp add: notify_def subscribe_def new_store_def quiet_def failing_def)

text \<open>Claim C6, amended. For every list of subscribers and every notification that a
  store operation dispatches (every call of \<^verbatim>\<open>notify(action, payload)\<close>), the callbacks
  are invoked in the order of registration, each with that same action and payload.
  When no callback throws, every subscriber is invoked once and \<^verbatim>\<open>notify\<close> returns. When
  the callback at position \<open>k\<close> is the first that throws, exactly the subscribers at
  positions 0 to \<open>k\<close> are invoked, the later ones are not, and \<^verbatim>\<open>notify\<close> throws: a
  subscriber error is not isolated, it ends the fan-out.\<close>

theorem notify_fanout:
  "notify action d s =
     (case findIndex (\<lambda>cb. cb action d = Throws) (subscribers s) of
        None \<Rightarrow>
          (Inr (), s\<lparr>calls := calls s @ map (\<lambda>j. (j, action, d)) [0 ..< length (subscribers s)]\<rparr>)
      | Some k \<Rightarrow>
          (Inl (SubscriberError k),
           s\<lparr>calls := calls s @ map (\<lambda>j. (j, action, d)) [0 ..< Suc k]\<rparr>))"
proof -
  have "notify action d s = (fst (notify action d s), snd (notify action d s))" by simp
  also have "\<dots> = (case findIndex (\<lambda>cb. cb action d = Throws) (subscribers s) of
        None \<Rightarrow>
          (Inr (), s\<lparr>calls := calls s @ map (\<lambda>j. (j, action, d)) [0 ..< length (subscribers s)]\<rparr>)
      | Some k \<Rightarrow>
          (Inl (SubscriberError k),
           s\<lparr>calls := calls s @ map (\<lambda>j. (j, action, d)) [0 ..< Suc k]\<rparr>))"
    unfolding notify_fst notify_snd dispatch_calls dispatch_exn
    by (simp split: option.splits)
  finally show ?thesis .
qed

subsection \<open>The critical set\<close>

lemma set_set_add: "set (set_add x xs) = insert x (set xs)"
  by (auto simp: set_add_def)

lemma distinct_set_add: "distinct xs \<Longrightarrow> distinct (set_add x xs)"
  by (simp add: set_add_def)

lemma find_by_id:
  "find (\<lambda>u. t_id u = n) ds = (if n \<in> t_id ` set ds then Some (the (find (\<lambda>u. t_id u = n) ds)) else None)"
  "find (\<lambda>u. t_id u = n) ds = Some u \<Longrightarrow> t_id u = n \<and> n \<in> t_id ` set ds"
  by (induction ds) (auto split: if_splits)

lemma high_fold:
  "set (foldl (\<lambda>c t. if t_priority t = ''high'' then set_add (t_id t) c else c) c0 ts)
     = set c0 \<union> {t_id t |t. t \<in> set ts \<and> t_priority t = ''high''}"
  "distinct c0 \<Longrightarrow>
     distinct (foldl (\<lambda>c t. if t_priority t = ''high'' then set_add (t_id t) c else c) c0 ts)"
  by (induction ts arbitrary: c0) (auto simp: set_set_add distinct_set_add)

lemma dep_fold:
  "set (foldl (\<lambda>c depId. case parseInt depId of None \<Rightarrow> c
                 | Some n \<Rightarrow> (case find (\<lambda>u. t_id u = n) ds of None \<Rightarrow> c
                             | Some depTask \<Rightarrow> set_add (t_id depTask) c)) c0 deps)
     = set c0 \<union> {n. n \<in> t_id ` set ds \<and> (\<exists>d\<in>set deps. parseInt d = Some n)}"
  "distinct c0 \<Longrightarrow>
     distinct (foldl (\<lambda>c depId. case parseInt depId of None \<Rightarrow> c
                 | Some n \<Rightarrow> (case find (\<lambda>u. t_id u = n) ds of None \<Rightarrow> c
                             | Some depTask \<Rightarrow> set_add (t_id depTask) c)) c0 deps)"
proof (induction deps arbitrary: c0)
  case Nil
  { case 1 show ?case by simp }
  { case 2 then show ?case by simp }
next
  case (Cons d deps)
  { case 1
    show ?case
    proof (cases "parseInt d")
      case None
      then show ?thesis using Cons.IH(1) by auto
    next
      case (Some n)
      show ?thesis
      proof (cases "find (\<lambda>u. t_id u = n) ds")
        case None
        then have "n \<notin> t_id ` set ds" by (subst (asm) find_by_id(1)) (simp split: if_splits)
        with None Some show ?thesis using Cons.IH(1) by auto
      next
        case (Some u)
        from find_by_id(2) [OF Some] have "t_id u = n" "n \<in> t_id ` set ds" by simp_all
        with Some \<open>parseInt d = Some n\<close> show ?thesis using Cons.IH(1)
          by (auto simp: set_set_add)
      qed
    qed }
  { case 2
    then show ?case using Cons.IH(2)
      by (auto simp: distinct_set_add split: option.splits) }
qed

lemma deps_fold:
  "set (foldl (\<lambda>c t. if t_dependencies t \<noteq> []
                 then foldl (\<lambda>c depId. case parseInt depId of None \<Rightarrow> c
                         | Some n \<Rightarrow> (case find (\<lambda>u. t_id u = n) ds of None \<Rightarrow> c
                                     | Some depTask \<Rightarrow> set_add (t_id depTask) c))
                        c (t_dependencies t)
                 else c) c0 ts)
     = set c0 \<union> {n. n \<in> t_id ` set ds
                      \<and> (\<exists>t\<in>set ts. \<exists>d\<in>set (t_dependencies t). parseInt d = Some n)}"
  "distinct c0 \<Longrightarrow>
   distinct (foldl (\<lambda>c t. if t_dependencies t \<noteq> []
                 then foldl (\<lambda>c depId. case parseInt depId of None \<Rightarrow> c
                         | Some n \<Rightarrow> (case find (\<lambda>u. t_id u = n) ds of None \<Rightarrow> c
                                     | Some depTask \<Rightarrow> set_add (t_id depTask) c))
                        c (t_dependencies t)
                 else c) c0 ts)"
proof (induction ts arbitrary: c0)
  case Nil
  { case 1 show ?case by simp }
  { case 2 then show ?case by simp }
next
  case (Cons t ts)
  { case 1
    show ?case by (auto simp: Cons.IH(1) dep_fold(1)) }
  { case 2
    then show ?case by (auto simp: Cons.IH(2) dep_fold(2)) }
qed

lemma calculateCriticalPath_snd:
  "snd (calculateCriticalPath s) = s\<lparr>criticalTasks := fst (calculateCriticalPath s)\<rparr>"
  by (simp add: calculateCriticalPath_def Let_def)

text \<open>Claim C7. \<^verbatim>\<open>calculateCriticalPath\<close> returns, without repetition, exactly the ids of
  the tasks of priority \<^verbatim>\<open>'high'\<close> together with the ids of the existing tasks that an
  entry of some task's \<^verbatim>\<open>dependencies\<close> refers to (through \<^verbatim>\<open>parseInt\<close>). The call
  changes only \<^verbatim>\<open>criticalTasks\<close>: the history, the cursor and the trace of subscriber
  invocations are as before. A second call right after the first returns the same list
  and leaves the same store.\<close>

theorem calculateCriticalPath_heuristic:
  "set (fst (calculateCriticalPath s))
     = {t_id t |t. t \<in> set (data s) \<and> t_priority t = ''high''}
       \<union> {n. n \<in> t_id ` set (data s)
              \<and> (\<exists>t\<in>set (data s). \<exists>d\<in>set (t_dependencies t). parseInt d = Some n)}
   \<and> distinct (fst (calculateCriticalPath s))
   \<and> snd (calculateCriticalPath s) = s\<lparr>criticalTasks := fst (calculateCriticalPath s)\<rparr>
   \<and> history (snd (calculateCriticalPath s)) = history s
   \<and> historyIndex (snd (calculateCriticalPath s)) = historyIndex s
   \<and> calls (snd (calculateCriticalPath s)) = calls s
   \<and> calculateCriticalPath (snd (calculateCriticalPath s)) = calculateCriticalPath s"
proof (intro conjI)
  show "set (fst (calculateCriticalPath s))
     = {t_id t |t. t \<in> set (data s) \<and> t_priority t = ''high''}
       \<union> {n. n \<in> t_id ` set (data s)
              \<and> (\<exists>t\<in>set (data s). \<exists>d\<in>set (t_dependencies t). parseInt d = Some n)}"
    by (simp add: calculateCriticalPath_def critical_ids_def Let_def deps_fold(1) high_fold(1))
  show "distinct (fst (calculateCriticalPath s))"
    by (simp add: calculateCriticalPath_def critical_ids_def Let_def deps_fold(2) high_fold(2))
  show snd: "snd (calculateCriticalPath s) = s\<lparr>criticalTasks := fst (calculateCriticalPath s)\<rparr>"
    by (rule calculateCriticalPath_snd)
  show "history (snd (calculateCriticalPath s)) = history s"
    and "historyIndex (snd (calculateCriticalPath s)) = historyIndex s"
    and "calls (snd (calculateCriticalPath s)) = calls s"
    by (simp_all add: calculateCriticalPath_snd)
  show "calculateCriticalPath (snd (calculateCriticalPath s)) = calculateCriticalPath s"
    by (simp add: calculateCriticalPath_def Let_def)
qed

theorem calculateCriticalPath_heuristic_witness:
  "fst (calculateCriticalPath crit_store) = [4, 1]
   \<and> {t_id t |t. t \<in> set (data crit_store) \<and> t_priority t = ''high''}
       \<union> {n. n \<in> t_id ` set (data crit_store)
              \<and> (\<exists>t\<in>set (data crit_store). \<exists>d\<in>set (t_dependencies t). parseInt d = Some n)}
       = {1, 4}
   \<and> calculateCriticalPath (snd (calculateCriticalPath crit_store))
       = calculateCriticalPath crit_store"
proof -
  have v: "fst (calculateCriticalPath crit_store) = [4, 1]" by code_simp
  from calculateCriticalPath_heuristic [of crit_store] v show ?thesis by auto
qed

subsection \<open>The tick interval\<close>

text \<open>Claim C9. \<open>chooseTickInterval\<close> is the step function of the specification: a span of
  at most 480 minutes gives 30; above 480 and at most 1440 gives 60; above 1440 and at
  most 2880 gives 120; above 2880 and at most 10080 gives 720; anything larger gives
  1440. At the three points of the boundary table, 480 gives 30, 1440 gives 60 and 20000
  gives 1440.\<close>

theorem chooseTickInterval_steps:
  "(s \<le> 480 \<longrightarrow> chooseTickInterval s = 30)
   \<and> (480 < s \<and> s \<le> 1440 \<longrightarrow> chooseTickInterval s = 60)
   \<and> (1440 < s \<and> s \<le> 2880 \<longrightarrow> chooseTickInterval s = 120)
   \<and> (2880 < s \<and> s \<le> 10080 \<longrightarrow> chooseTickInterval s = 720)
   \<and> (10080 < s \<longrightarrow> chooseTickInterval s = 1440)
   \<and> chooseTickInterval 480 = 30
   \<and> chooseTickInterval 1440 = 60
   \<and> chooseTickInterval 20000 = 1440"
  by (simp add: chooseTickInterval_def)

theorem chooseTickInterval_steps_witness:
  "(100::int) \<le> 480 \<and> chooseTickInterval 100 = 30
   \<and> (480::int) < 481 \<and> (481::int) \<le> 1440 \<and> chooseTickInterval 481 = 60
   \<and> (1440::int) < 1441 \<and> (1441::int) \<le> 2880 \<and> chooseTickInterval 1441 = 120
   \<and> (2880::int) < 10080 \<and> (10080::int) \<le> 10080 \<and> chooseTickInterval 10080 = 720
   \<and> (10080::int) < 10081 \<and> chooseTickInterval 10081 = 1440"
  using chooseTickInterval_steps [of 100] chooseTickInterval_steps [of 481]
    chooseTickInterval_steps [of 1441] chooseTickInterval_steps [of 10080]
    chooseTickInterval_steps [of 10081]
  by simp

end
